theory Spec2Isabelle
  imports Complex_Main "HOL-Library.Sublist"
begin

section \<open>Strings, errors and the collaborators of \<open>lm_t5.py\<close>\<close>

text \<open>
  A Python \<open>str\<close> is modelled as a \<open>string\<close>; one \<open>char\<close> stands for one code point
  (the model covers the code points below 256). Exceptions are values of type \<open>error\<close>;
  the classes of \<open>exceptions.py\<close> carry the arguments given at their raise sites.
\<close>

datatype error =
    HighlightNotFoundError string string
  | ExceedMaxLengthError int
  | AnswerNotFoundError string
  | AssertionError
  | ValueError
  | FileNotFoundError
  | FileExistsError
  | IsADirectoryError
  | NotADirectoryError
  | RuntimeError

datatype task = ans_ext | e2e_qg | qa | qg

fun TASK_PREFIX :: "task \<Rightarrow> string" where
  "TASK_PREFIX ans_ext = ''extract answers''"
| "TASK_PREFIX e2e_qg = ''generate questions''"
| "TASK_PREFIX qa = ''question''"
| "TASK_PREFIX qg = ''generate question''"

definition ADDITIONAL_SP_TOKENS_hl :: string where
  "ADDITIONAL_SP_TOKENS_hl = ''<hl>''"

text \<open>
  An encoded example is the dictionary returned by the tokenizer's \<open>encode_plus\<close>: it
  always holds \<open>input_ids\<close> and \<open>attention_mask\<close>, and \<open>labels\<close> once \<open>encode_plus\<close> of
  \<open>EncodePlus\<close> has attached them. Such a dictionary is never empty, so Python's
  \<open>filter(None, ...)\<close> drops exactly the \<open>None\<close> entries of a list of them. The keyword
  arguments handed to the tokenizer are a record; \<open>no_kwargs\<close> is a call without any.
\<close>

record encoding =
  input_ids :: "int list"
  attention_mask :: "int list"
  labels :: "int list option"

record kwargs =
  truncation :: bool
  kw_max_length :: "int option"
  kw_padding :: "string option"

definition no_kwargs :: kwargs where
  "no_kwargs = \<lparr>truncation = False, kw_max_length = None, kw_padding = None\<rparr>"

text \<open>The tokenizer of the transformers library is a parameter of the model.\<close>

record tokenizer =
  tok_encode :: "string \<Rightarrow> kwargs \<Rightarrow> int list"
  tok_encode_plus :: "string \<Rightarrow> kwargs \<Rightarrow> encoding"

section \<open>\<open>EncodePlus\<close>\<close>

record EncodePlus =
  tokenizer :: tokenizer
  max_length :: int
  max_length_output :: int
  drop_overflow_text :: bool
  skip_overflow_error :: bool
  skip_highlight_error :: bool
  task_prefix :: "task option"
  padding :: bool

text \<open>\<open>param_in\<close> and \<open>param_out\<close> as \<open>__init__\<close> builds them.\<close>

definition param_in :: "EncodePlus \<Rightarrow> kwargs" where
  "param_in self = \<lparr>truncation = True, kw_max_length = Some (max_length self),
     kw_padding = (if padding self then Some ''max_length'' else None)\<rparr>"

definition param_out :: "EncodePlus \<Rightarrow> kwargs" where
  "param_out self = \<lparr>truncation = True, kw_max_length = Some (max_length_output self),
     kw_padding = (if padding self then Some ''max_length'' else None)\<rparr>"

text \<open>\<open>str.find\<close>: the lowest index at which \<open>sub\<close> occurs, or \<open>-1\<close>.\<close>

fun str_find :: "string \<Rightarrow> string \<Rightarrow> int" where
  "str_find [] sub = (if sub = [] then 0 else - 1)"
| "str_find (c # cs) sub =
     (if prefix sub (c # cs) then 0
      else (let r = str_find cs sub in if r = - 1 then - 1 else r + 1))"

text \<open>
  The first block of \<open>encode_plus\<close> (``add highlight to the input''): \<open>Inr None\<close> is the
  early \<open>return None\<close>, \<open>Inl\<close> the raised error, \<open>Inr (Some s)\<close> the input sequence the
  function goes on with.
\<close>

fun add_highlight :: "EncodePlus \<Rightarrow> string \<Rightarrow> string option \<Rightarrow> error + string option" where
  "add_highlight self input_sequence None = Inr (Some input_sequence)"
| "add_highlight self input_sequence (Some input_highlight) =
     (let position = str_find input_sequence input_highlight in
      if position = - 1 then
        (if skip_highlight_error self then Inr None
         else Inl (HighlightNotFoundError input_highlight input_sequence))
      else Inr (Some (take (nat position) input_sequence
                      @ ADDITIONAL_SP_TOKENS_hl @ '' '' @ input_highlight @ '' ''
                      @ ADDITIONAL_SP_TOKENS_hl
                      @ drop (nat position + length input_highlight) input_sequence)))"

text \<open>The second block: the task prefix.\<close>

fun add_task_prefix :: "EncodePlus \<Rightarrow> string \<Rightarrow> string" where
  "add_task_prefix self input_sequence =
     (case task_prefix self of
        None \<Rightarrow> input_sequence
      | Some t \<Rightarrow> TASK_PREFIX t @ '': '' @ input_sequence)"

text \<open>The last two statements: the numeric encoding, with the labels when a target is given.\<close>

fun tokenize :: "EncodePlus \<Rightarrow> string \<Rightarrow> string option \<Rightarrow> encoding" where
  "tokenize self input_sequence None =
     tok_encode_plus (tokenizer self) input_sequence (param_in self)"
| "tokenize self input_sequence (Some output_sequence) =
     (tok_encode_plus (tokenizer self) input_sequence (param_in self))
       \<lparr>labels := Some (tok_encode (tokenizer self) output_sequence (param_out self))\<rparr>"

text \<open>The overflow block and the encoding, on the highlighted and prefixed input.\<close>

definition encode_checked :: "EncodePlus \<Rightarrow> string \<Rightarrow> string option \<Rightarrow> error + encoding option" where
  "encode_checked self input_sequence output_sequence =
     (if drop_overflow_text self \<or> \<not> skip_overflow_error self then
        (if int (length (tok_encode (tokenizer self) input_sequence no_kwargs)) > max_length self then
           (if drop_overflow_text self then Inr None
            else Inl (ExceedMaxLengthError (max_length self)))
         else
           (case output_sequence of
              None \<Rightarrow> Inr (Some (tokenize self input_sequence output_sequence))
            | Some t \<Rightarrow>
                (if int (length (tok_encode (tokenizer self) t no_kwargs)) > max_length_output self then
                   (if drop_overflow_text self then Inr None
                    else Inl (ExceedMaxLengthError (max_length self)))
                 else Inr (Some (tokenize self input_sequence output_sequence)))))
      else Inr (Some (tokenize self input_sequence output_sequence)))"

definition encode_plus ::
  "EncodePlus \<Rightarrow> string \<Rightarrow> string option \<Rightarrow> string option \<Rightarrow> error + encoding option" where
  "encode_plus self input_sequence output_sequence input_highlight =
     (case add_highlight self input_sequence input_highlight of
        Inl e \<Rightarrow> Inl e
      | Inr None \<Rightarrow> Inr None
      | Inr (Some highlighted) \<Rightarrow>
          encode_checked self (add_task_prefix self highlighted) output_sequence)"

section \<open>The file system seen by the cache\<close>

text \<open>
  The only files the loader reads or writes are pickled lists of encoded examples, so a
  file system is the map from the paths of such files to their contents, with the set of
  directories. Paths are compared as written (no normalisation, links or permissions).
\<close>

record fs =
  files :: "string \<Rightarrow> encoding list option"
  dirs :: "string set"

definition path_exists :: "fs \<Rightarrow> string \<Rightarrow> bool" where
  "path_exists s p = (files s p \<noteq> None \<or> p \<in> dirs s)"

text \<open>\<open>os.path.dirname\<close> of \<open>posixpath\<close>: the head up to the last slash, trailing slashes
  stripped unless the head is made of slashes only.\<close>

definition dirname :: "string \<Rightarrow> string" where
  "dirname p =
     (let head = rev (dropWhile (\<lambda>c. c \<noteq> CHR ''/'') (rev p)) in
      if head \<noteq> [] \<and> \<not> list_all (\<lambda>c. c = CHR ''/'') head
      then rev (dropWhile (\<lambda>c. c = CHR ''/'') (rev head)) else head)"

text \<open>A directory and its ancestors, innermost first.\<close>

fun path_chain :: "nat \<Rightarrow> string \<Rightarrow> string list" where
  "path_chain 0 p = []"
| "path_chain (Suc n) p = (if p = [] then [] else p # path_chain n (dirname p))"

text \<open>\<open>os.makedirs(name, exist_ok=True)\<close>.\<close>

definition makedirs :: "string \<Rightarrow> fs \<Rightarrow> error + fs" where
  "makedirs name s =
     (if name = [] then Inl FileNotFoundError
      else if files s name \<noteq> None then Inl FileExistsError
      else if list_ex (\<lambda>d. files s d \<noteq> None) (path_chain (length name) name)
        then Inl NotADirectoryError
      else Inr (s\<lparr>dirs := dirs s \<union> set (path_chain (length name) name)\<rparr>))"

definition pickle_save :: "encoding list \<Rightarrow> string \<Rightarrow> fs \<Rightarrow> error + fs" where
  "pickle_save obj path s =
     (if path = [] then Inl FileNotFoundError
      else if path \<in> dirs s \<or> last path = CHR ''/'' then Inl IsADirectoryError
      else if dirname path \<noteq> [] \<and> dirname path \<notin> dirs s then Inl FileNotFoundError
      else Inr (s\<lparr>files := (files s)(path \<mapsto> obj)\<rparr>))"

definition pickle_load :: "string \<Rightarrow> fs \<Rightarrow> error + encoding list" where
  "pickle_load path s =
     (case files s path of
        Some obj \<Rightarrow> Inr obj
      | None \<Rightarrow> if path \<in> dirs s then Inl IsADirectoryError else Inl FileNotFoundError)"

section \<open>The model object and the data loader\<close>

text \<open>
  \<open>generate\<close> is \<open>tokenizer.batch_decode(model.generate(**encode), skip_special_tokens=True)\<close>
  on one batch with \<open>max_length\<close> and \<open>num_beams\<close>; \<open>forward\<close> is the model call that returns
  the loss and the logits; \<open>sentence_splitter\<close> is \<open>sentence_split.SentSplit()\<close>. All three
  are parameters.
\<close>

record batch =
  b_input_ids :: "int list"
  b_attention_mask :: "int list"
  b_labels :: "int list option"

record T5 =
  t5_tokenizer :: tokenizer
  t5_max_length :: int
  t5_max_length_output :: int
  label_smoothing :: "real option"
  no_prefix :: bool
  generate :: "encoding list \<Rightarrow> int \<Rightarrow> int \<Rightarrow> string list"
  forward :: "batch \<Rightarrow> real \<times> real list list"
  sentence_splitter :: "string \<Rightarrow> string list"

text \<open>\<open>torch.utils.data.DataLoader\<close> over \<open>Dataset(out)\<close>: its constructor refuses a negative
  worker count and a batch size that is not positive.\<close>

record DataLoader =
  dataset :: "encoding list"
  batch_size :: int
  shuffle :: bool
  num_workers :: int
  drop_last :: bool

definition DataLoader_init ::
  "encoding list \<Rightarrow> int \<Rightarrow> bool \<Rightarrow> int \<Rightarrow> bool \<Rightarrow> error + DataLoader" where
  "DataLoader_init data bs sh nw dl =
     (if nw < 0 \<or> bs \<le> 0 then Inl ValueError
      else Inr \<lparr>dataset = data, batch_size = bs, shuffle = sh, num_workers = nw, drop_last = dl\<rparr>)"

text \<open>Iterating a loader built with \<open>shuffle=False\<close>: consecutive slices of \<open>batch_size\<close>
  examples, the last shorter one kept unless \<open>drop_last\<close>.\<close>

fun chunks :: "nat \<Rightarrow> 'a list \<Rightarrow> 'a list list" where
  "chunks n xs = (if n = 0 \<or> xs = [] then [] else take n xs # chunks n (drop n xs))"

definition batches :: "DataLoader \<Rightarrow> encoding list list" where
  "batches loader =
     (let cs = chunks (nat (batch_size loader)) (dataset loader) in
      if drop_last loader then filter (\<lambda>b. length b = nat (batch_size loader)) cs else cs)"

text \<open>The requests of \<open>get_data_loader\<close>: \<open>(input, output, highlight)\<close>, an absent
  output or highlight being \<open>None\<close>.\<close>

type_synonym request = "string \<times> string option \<times> string option"

definition make_data ::
  "string list \<Rightarrow> string list option \<Rightarrow> string option list option \<Rightarrow> error + request list" where
  "make_data inputs outputs highlights =
     (case outputs of
        Some os \<Rightarrow>
          if length os \<noteq> length inputs then Inl AssertionError
          else (case highlights of
                  None \<Rightarrow> Inr (map (\<lambda>(i, t). (i, Some t, None)) (zip inputs os))
                | Some hs \<Rightarrow>
                    if length hs \<noteq> length inputs then Inl AssertionError
                    else Inr (map (\<lambda>((i, t), h). (i, Some t, h)) (zip (zip inputs os) hs)))
      | None \<Rightarrow>
          (case highlights of
             None \<Rightarrow> Inr (map (\<lambda>i. (i, None, None)) inputs)
           | Some hs \<Rightarrow>
               if length hs \<noteq> length inputs then Inl AssertionError
               else Inr (map (\<lambda>(i, h). (i, None, h)) (zip inputs hs))))"

definition resolve_prefix :: "T5 \<Rightarrow> task option \<Rightarrow> error + task option" where
  "resolve_prefix self task_prefix' =
     (if no_prefix self \<and> task_prefix' \<noteq> None then
        (if task_prefix' = Some qg then Inr None else Inl ValueError)
      else Inr task_prefix')"

text \<open>The \<open>config\<close> dictionary, as the \<open>EncodePlus\<close> built from it.\<close>

definition encoder_config ::
  "T5 \<Rightarrow> task option \<Rightarrow> bool \<Rightarrow> bool \<Rightarrow> bool \<Rightarrow> nat \<Rightarrow> EncodePlus" where
  "encoder_config self task_prefix' drop_overflow_text' skip_overflow_error' skip_highlight_error' n =
     \<lparr>tokenizer = t5_tokenizer self, max_length = t5_max_length self,
      max_length_output = t5_max_length_output self,
      drop_overflow_text = drop_overflow_text', skip_overflow_error = skip_overflow_error',
      skip_highlight_error = skip_highlight_error', task_prefix = task_prefix',
      padding = (n \<noteq> 1)\<rparr>"

text \<open>
  The encoding loop. The first error raised ends it. \<open>Pool().map\<close> returns the results
  in the order of the inputs, so the parallel branch computes the same list; which error
  it reports when several requests fail is not distinguished here.
\<close>

fun encode_all :: "EncodePlus \<Rightarrow> request list \<Rightarrow> error + encoding option list" where
  "encode_all f [] = Inr []"
| "encode_all f ((i, t, h) # rest) =
     (case encode_plus f i t h of
        Inl e \<Rightarrow> Inl e
      | Inr r \<Rightarrow> (case encode_all f rest of Inl e \<Rightarrow> Inl e | Inr rs \<Rightarrow> Inr (r # rs)))"

fun filter_None :: "'a option list \<Rightarrow> 'a list" where
  "filter_None [] = []"
| "filter_None (None # xs) = filter_None xs"
| "filter_None (Some x # xs) = x # filter_None xs"

text \<open>The \<open>else\<close> branch of the cache test: encode, filter, and write the cache when a
  path is given. The file system is returned as the raise or the return leaves it.\<close>

definition encode_fresh ::
  "EncodePlus \<Rightarrow> request list \<Rightarrow> string option \<Rightarrow> fs \<Rightarrow> (error + encoding list) \<times> fs" where
  "encode_fresh f data cache_path s =
     (case encode_all f data of
        Inl e \<Rightarrow> (Inl e, s)
      | Inr out \<Rightarrow>
          (case cache_path of
             None \<Rightarrow> (Inr (filter_None out), s)
           | Some path \<Rightarrow>
               (case makedirs (dirname path) s of
                  Inl e \<Rightarrow> (Inl e, s)
                | Inr s1 \<Rightarrow>
                    (case pickle_save (filter_None out) path s1 of
                       Inl e \<Rightarrow> (Inl e, s1)
                     | Inr s2 \<Rightarrow> (Inr (filter_None out), s2)))))"

definition get_data_loader ::
  "T5 \<Rightarrow> string list \<Rightarrow> string list option \<Rightarrow> string option list option \<Rightarrow> task option
   \<Rightarrow> int option \<Rightarrow> int \<Rightarrow> bool \<Rightarrow> bool \<Rightarrow> string option \<Rightarrow> bool \<Rightarrow> bool \<Rightarrow> bool \<Rightarrow> bool
   \<Rightarrow> fs \<Rightarrow> (error + DataLoader) \<times> fs" where
  "get_data_loader self inputs outputs highlights task_prefix' batch_size' num_workers' shuffle'
     drop_last' cache_path drop_overflow_text' skip_overflow_error' skip_highlight_error'
     parallel' s =
     (case make_data inputs outputs highlights of
        Inl e \<Rightarrow> (Inl e, s)
      | Inr data \<Rightarrow>
     (case resolve_prefix self task_prefix' of
        Inl e \<Rightarrow> (Inl e, s)
      | Inr tp \<Rightarrow>
     (case (case cache_path of
              Some path \<Rightarrow>
                if path_exists s path then (pickle_load path s, s)
                else encode_fresh (encoder_config self tp drop_overflow_text' skip_overflow_error'
                       skip_highlight_error' (length data)) data cache_path s
            | None \<Rightarrow>
                encode_fresh (encoder_config self tp drop_overflow_text' skip_overflow_error'
                  skip_highlight_error' (length data)) data cache_path s) of
        (Inl e, s') \<Rightarrow> (Inl e, s')
      | (Inr out, s') \<Rightarrow>
          (DataLoader_init out
             (case batch_size' of None \<Rightarrow> int (length out) | Some b \<Rightarrow> b)
             shuffle' num_workers' drop_last', s'))))"

section \<open>Generation\<close>

definition generate_prediction ::
  "T5 \<Rightarrow> string list \<Rightarrow> string option list option \<Rightarrow> task option \<Rightarrow> bool \<Rightarrow> bool \<Rightarrow> bool
   \<Rightarrow> bool \<Rightarrow> int option \<Rightarrow> int \<Rightarrow> int \<Rightarrow> string option \<Rightarrow> fs \<Rightarrow> (error + string list) \<times> fs" where
  "generate_prediction self list_context list_highlight task_type drop_overflow_text'
     skip_overflow_error' skip_highlight_error' parallel' batch_size' num_beams num_workers'
     cache_path s =
     (case get_data_loader self list_context None list_highlight task_type batch_size'
             num_workers' False False cache_path drop_overflow_text' skip_overflow_error'
             skip_highlight_error' parallel' s of
        (Inl e, s') \<Rightarrow> (Inl e, s')
      | (Inr loader, s') \<Rightarrow>
          (Inr (concat (map (\<lambda>encode. generate self encode (t5_max_length_output self) num_beams)
                  (batches loader))), s'))"

definition generate_q ::
  "T5 \<Rightarrow> string list \<Rightarrow> string list option \<Rightarrow> bool \<Rightarrow> bool \<Rightarrow> bool \<Rightarrow> int option \<Rightarrow> int \<Rightarrow> int
   \<Rightarrow> string option \<Rightarrow> fs \<Rightarrow> (error + string list) \<times> fs" where
  "generate_q self list_context list_answer drop_overflow_text' skip_overflow_error' parallel'
     batch_size' num_beams num_workers' cache_path s =
     generate_prediction self list_context (map_option (map Some) list_answer) (Some qg)
       drop_overflow_text' skip_overflow_error' False parallel' batch_size' num_beams
       num_workers' cache_path s"

text \<open>
  \<open>\s\<close> of a \<open>str\<close> pattern is Unicode white space; below 256 these are the code points
  9 to 13, 28 to 32, 133 and 160. \<open>clean\<close> removes the white space at both ends and
  returns \<open>None\<close> for what becomes empty.
\<close>

definition isspace :: "char \<Rightarrow> bool" where
  "isspace c = ((of_char c :: nat) \<in> {9, 10, 11, 12, 13, 28, 29, 30, 31, 32, 133, 160})"

definition clean :: "string \<Rightarrow> string option" where
  "clean string =
     (let string1 = dropWhile isspace string;
          string2 = rev (dropWhile isspace (rev string1))
      in if length string2 > 0 then Some string2 else None)"

definition generate_a ::
  "T5 \<Rightarrow> string \<Rightarrow> bool \<Rightarrow> bool \<Rightarrow> bool \<Rightarrow> int option \<Rightarrow> int \<Rightarrow> int \<Rightarrow> string option \<Rightarrow> fs
   \<Rightarrow> (error + string list) \<times> fs" where
  "generate_a self context drop_overflow_text' skip_overflow_error' parallel' batch_size'
     num_beams num_workers' cache_path s =
     (if no_prefix self then (Inl AssertionError, s)
      else
        (let list_sentence = map clean (sentence_splitter self context);
             list_context = replicate (length list_sentence) context
         in case generate_prediction self list_context (Some list_sentence) (Some ans_ext)
                   drop_overflow_text' skip_overflow_error' False parallel' batch_size'
                   num_beams num_workers' cache_path s of
              (Inl e, s') \<Rightarrow> (Inl e, s')
            | (Inr out, s') \<Rightarrow>
                (let out1 = map clean out;
                     out2 = filter_None out1;
                     out3 = filter (\<lambda>x. sublist x context) out2
                 in if length out3 = 0 then (Inl (AnswerNotFoundError context), s')
                    else (Inr out3, s'))))"

definition generate_qa ::
  "T5 \<Rightarrow> string \<Rightarrow> bool \<Rightarrow> bool \<Rightarrow> bool \<Rightarrow> int option \<Rightarrow> int \<Rightarrow> int \<Rightarrow> string option \<Rightarrow> fs
   \<Rightarrow> (error + (string \<times> string) list) \<times> fs" where
  "generate_qa self context drop_overflow_text' skip_overflow_error' parallel' batch_size'
     num_beams num_workers' cache_path s =
     (case generate_a self context drop_overflow_text' skip_overflow_error' parallel'
             batch_size' num_beams num_workers' cache_path s of
        (Inl e, s1) \<Rightarrow> (Inl e, s1)
      | (Inr list_answer, s1) \<Rightarrow>
          (let list_context = replicate (length list_answer) context
           in case generate_q self list_context (Some list_answer) drop_overflow_text'
                     skip_overflow_error' parallel' batch_size' num_beams num_workers'
                     cache_path s1 of
                (Inl e, s2) \<Rightarrow> (Inl e, s2)
              | (Inr list_question, s2) \<Rightarrow>
                  if length list_answer \<noteq> length list_question then (Inl AssertionError, s2)
                  else (Inr (zip list_question list_answer), s2)))"

section \<open>The label-smoothed loss\<close>

text \<open>
  Tensors are kept as the row-major list of their positions: \<open>logits\<close> of shape
  (batch, sequence, vocabulary) is the list of its vocabulary rows, \<open>labels\<close> of shape
  (batch, sequence) the list of its ids; every operation of the function works position by
  position or sums over all of them. Numbers are real (exact arithmetic, no rounding, no
  infinities); the one value with no real counterpart, the \<open>0 / 0\<close> of a batch with no
  active position, is \<open>NaN\<close>. The shapes are taken to agree, as \<open>gather\<close> and
  \<open>masked_fill_\<close> require.

  \<open>labels.unsqueeze(-1)\<close> is a view of the caller's tensor and \<open>clamp_min_\<close> works in
  place, so the function also returns the contents of that tensor after the call.
\<close>

datatype loss_value = Loss real | NaN

definition CE_IGNORE_INDEX :: int where
  "CE_IGNORE_INDEX = - 100"

definition log_softmax :: "real list \<Rightarrow> real list" where
  "log_softmax row = map (\<lambda>x. x - ln (sum_list (map exp row))) row"

definition vocab_size :: "real list list \<Rightarrow> nat" where
  "vocab_size logits = (case logits of [] \<Rightarrow> 0 | row # _ \<Rightarrow> length row)"

definition label_smoothed_loss ::
  "real list list \<Rightarrow> int list \<Rightarrow> real \<Rightarrow> (error + loss_value) \<times> int list" where
  "label_smoothed_loss logits labels' epsilon =
     (let log_probs = map (\<lambda>row. map uminus (log_softmax row)) logits;
          padding_mask = map (\<lambda>l. l = CE_IGNORE_INDEX) labels';
          clamped = map (max 0) labels'
      in if list_ex (\<lambda>(row, l). length row \<le> nat l) (zip log_probs clamped)
         then (Inl RuntimeError, clamped)
         else
           (let nll_loss = map (\<lambda>(row, l). row ! nat l) (zip log_probs clamped);
                smoothed_loss = map sum_list log_probs;
                nll_loss1 = map (\<lambda>(m, x). if m then 0 else x) (zip padding_mask nll_loss);
                smoothed_loss1 = map (\<lambda>(m, x). if m then 0 else x) (zip padding_mask smoothed_loss);
                num_active_elements =
                  int (length padding_mask) - int (length (filter (\<lambda>m. m) padding_mask))
            in if num_active_elements = 0 then (Inr NaN, clamped)
               else (Inr (Loss ((1 - epsilon) * (sum_list nll_loss1 / real_of_int num_active_elements)
                        + epsilon * (sum_list smoothed_loss1
                            / (real_of_int num_active_elements * real (vocab_size log_probs))))),
                     clamped)))"

text \<open>\<open>encode_to_loss\<close> hands \<open>encode['labels']\<close> itself to \<open>label_smoothed_loss\<close> (the
  copies moved to the device go to the model only), so the batch is returned as the call
  leaves it.\<close>

definition encode_to_loss :: "T5 \<Rightarrow> batch \<Rightarrow> (error + loss_value) \<times> batch" where
  "encode_to_loss self encode =
     (case b_labels encode of
        None \<Rightarrow> (Inl AssertionError, encode)
      | Some lab \<Rightarrow>
          (case label_smoothing self of
             None \<Rightarrow> (Inr (Loss (fst (forward self encode))), encode)
           | Some eps \<Rightarrow>
               if eps = 0 then (Inr (Loss (fst (forward self encode))), encode)
               else (case label_smoothed_loss (snd (forward self encode)) lab eps of
                       (r, lab') \<Rightarrow> (r, encode\<lparr>b_labels := Some lab'\<rparr>))))"

section \<open>Definitions used to state the properties\<close>

text \<open>
  ``Removing markers'' is an operation of the specification, no function of the source.
  Read as the removal of every marker token it is \<open>str.replace(token, '')\<close>, which deletes the
  occurrences of \<open>tok\<close> from left to right.
\<close>

function remove_all :: "string \<Rightarrow> string \<Rightarrow> string" where
  "remove_all tok s =
     (if s = [] then []
      else if tok \<noteq> [] \<and> prefix tok s then remove_all tok (drop (length tok) s)
      else hd s # remove_all tok (tl s))"
  by pat_completeness auto
termination
  by (relation "measure (\<lambda>(tok, s). length s)") auto

text \<open>
  Read as the inverse of the insertion, it removes the two markers where the encoder put
  them, each with
  the blank that separates it from the span: the marker and a blank at offset \<open>p\<close>, and a
  blank and the marker after the \<open>n\<close> characters of the span.
\<close>

definition unwrap_span :: "nat \<Rightarrow> nat \<Rightarrow> string \<Rightarrow> string" where
  "unwrap_span p n s =
     take p s @ take n (drop (p + (length ADDITIONAL_SP_TOKENS_hl + 1)) s)
     @ drop (p + (length ADDITIONAL_SP_TOKENS_hl + 1) + n + (1 + length ADDITIONAL_SP_TOKENS_hl)) s"

text \<open>
  Concrete collaborators for the examples: a tokenizer with one id per character, which
  truncates to \<open>max_length\<close> on request, and an encoder configuration over it.
\<close>

definition char_tok :: tokenizer where
  "char_tok =
     \<lparr>tok_encode = (\<lambda>s kw. case kw_max_length kw of
          None \<Rightarrow> map (\<lambda>c. int (of_char c)) s
        | Some m \<Rightarrow> if truncation kw then take (nat m) (map (\<lambda>c. int (of_char c)) s)
                    else map (\<lambda>c. int (of_char c)) s),
      tok_encode_plus = (\<lambda>s kw.
        \<lparr>input_ids = (case kw_max_length kw of
             None \<Rightarrow> map (\<lambda>c. int (of_char c)) s
           | Some m \<Rightarrow> if truncation kw then take (nat m) (map (\<lambda>c. int (of_char c)) s)
                       else map (\<lambda>c. int (of_char c)) s),
         attention_mask = (case kw_max_length kw of
             None \<Rightarrow> map (\<lambda>c. 1) s
           | Some m \<Rightarrow> if truncation kw then take (nat m) (map (\<lambda>c. 1) s)
                       else map (\<lambda>c. 1) s),
         labels = None\<rparr>)\<rparr>"

definition example_encoder :: "int \<Rightarrow> int \<Rightarrow> bool \<Rightarrow> bool \<Rightarrow> bool \<Rightarrow> EncodePlus" where
  "example_encoder m n d so sh =
     \<lparr>tokenizer = char_tok, max_length = m, max_length_output = n, drop_overflow_text = d,
      skip_overflow_error = so, skip_highlight_error = sh, task_prefix = Some qg,
      padding = False\<rparr>"

text \<open>A file system with nothing in it.\<close>

definition empty_fs :: fs where
  "empty_fs = \<lparr>files = (\<lambda>p. None), dirs = {}\<rparr>"

text \<open>A file system that holds one cache file, in its directory.\<close>

definition cached_fs :: "string \<Rightarrow> encoding list \<Rightarrow> fs" where
  "cached_fs path content =
     \<lparr>files = (\<lambda>p. if p = path then Some content else None), dirs = {dirname path}\<rparr>"

text \<open>
  A model object over the character tokenizer: its \<open>generate\<close> answers an input that
  starts with \<open>e\<close> (the prefix of answer extraction) by a candidate answer with blanks
  around it, and any other input by a question.
\<close>

definition example_generate :: "encoding list \<Rightarrow> int \<Rightarrow> int \<Rightarrow> string list" where
  "example_generate b ml nb =
     map (\<lambda>e. if take 1 (input_ids e) = [101] then '' Tokyo '' else ''Where do I live?'') b"

definition example_T5 ::
  "int \<Rightarrow> (encoding list \<Rightarrow> int \<Rightarrow> int \<Rightarrow> string list) \<Rightarrow> (string \<Rightarrow> string list) \<Rightarrow> T5" where
  "example_T5 m gen split =
     \<lparr>t5_tokenizer = char_tok, t5_max_length = m, t5_max_length_output = 8,
      label_smoothing = None, no_prefix = False, generate = gen,
      forward = (\<lambda>b. (0, [])), sentence_splitter = split\<rparr>"

text \<open>
  The filter of the extraction stage in the specification's words: ``trim whitespace from
  every decoded string; drop empty strings; drop any decoded answer that is not a verbatim
  substring of the context''. \<open>trim\<close> is the
  string without the white space at its two ends, \<open>usable_answers\<close> the list that is left.
\<close>

definition trim :: "string \<Rightarrow> string" where
  "trim s = rev (dropWhile isspace (rev (dropWhile isspace s)))"

definition usable_answers :: "string \<Rightarrow> string list \<Rightarrow> string list" where
  "usable_answers context decoded =
     filter (\<lambda>x. sublist x context) (filter (\<lambda>x. x \<noteq> []) (map trim decoded))"

text \<open>
  The loss as the specification words it: the positions whose label is not the ignore
  value, the mean over them of the negative log-probability of the label, and the mean over
  them and over the vocabulary of the negative log-probabilities.
\<close>

definition non_padded :: "real list list \<Rightarrow> int list \<Rightarrow> (real list \<times> int) list" where
  "non_padded logits labels' = filter (\<lambda>(row, l). l \<noteq> CE_IGNORE_INDEX) (zip logits labels')"

definition nll_spec :: "real list list \<Rightarrow> int list \<Rightarrow> real" where
  "nll_spec logits labels' =
     (\<Sum>(row, l)\<leftarrow>non_padded logits labels'. - (log_softmax row ! nat l))
       / real (length (non_padded logits labels'))"

definition smoothed_spec :: "real list list \<Rightarrow> int list \<Rightarrow> real" where
  "smoothed_spec logits labels' =
     (\<Sum>(row, l)\<leftarrow>non_padded logits labels'. (\<Sum>x\<leftarrow>log_softmax row. - x))
       / (real (length (non_padded logits labels')) * real (vocab_size logits))"

section \<open>The highlighter\<close>

lemma str_find_ge: "- 1 \<le> str_find s sub"
  by (induction s) (auto simp: Let_def)

lemma str_find_none: "str_find s sub = - 1 \<longleftrightarrow> \<not> sublist sub s"
proof (induction s)
  case Nil
  then show ?case by auto
next
  case (Cons c cs)
  have "- 1 \<le> str_find cs sub" by (rule str_find_ge)
  then have "str_find cs sub + 1 \<noteq> - 1" by arith
  with Cons show ?case
    by (auto simp: Let_def sublist_Cons_right)
qed

lemma str_find_first:
  "str_find s sub = int p \<Longrightarrow>
     prefix sub (drop p s) \<and> p \<le> length s \<and> (\<forall>q<p. \<not> prefix sub (drop q s))"
proof (induction s arbitrary: p)
  case Nil
  then show ?case by (auto split: if_splits)
next
  case (Cons c cs)
  show ?case
  proof (cases "prefix sub (c # cs)")
    case True
    with Cons.prems show ?thesis by simp
  next
    case False
    with Cons.prems have r: "str_find cs sub \<noteq> - 1" "str_find cs sub + 1 = int p"
      by (auto simp: Let_def split: if_splits)
    have "- 1 \<le> str_find cs sub" by (rule str_find_ge)
    with r obtain p' where p': "p = Suc p'" "str_find cs sub = int p'"
      by (cases p) auto
    from Cons.IH[OF p'(2)] False p'(1) show ?thesis
      by (auto simp: less_Suc_eq_0_disj)
  qed
qed

lemma prefix_drop_split:
  assumes "prefix sub (drop p s)"
  shows "s = take p s @ sub @ drop (p + length sub) s" and "p + length sub \<le> length s \<or> sub = []"
proof -
  from assms obtain r where r: "drop p s = sub @ r" by (auto simp: prefix_def)
  have "drop (p + length sub) s = drop (length sub) (drop p s)" by (simp add: add.commute)
  also have "\<dots> = r" using r by simp
  finally have d: "drop (p + length sub) s = r" .
  have "s = take p s @ drop p s" by simp
  with r d show "s = take p s @ sub @ drop (p + length sub) s" by simp
  from r have "length (drop p s) = length sub + length r" by (metis length_append)
  then show "p + length sub \<le> length s \<or> sub = []" by (cases sub) auto
qed

lemma sublist_find:
  assumes "sublist S C"
  obtains p where "str_find C S = int p" "prefix S (drop p C)" "p \<le> length C"
    "\<forall>q<p. \<not> prefix S (drop q C)"
proof -
  from assms have "str_find C S \<noteq> - 1" by (simp add: str_find_none)
  moreover have "- 1 \<le> str_find C S" by (rule str_find_ge)
  ultimately have "0 \<le> str_find C S" by arith
  then obtain p where p: "str_find C S = int p" by (metis nonneg_int_cases)
  from str_find_first[OF p] p that show thesis by blast
qed

lemma unwrap_wrapped:
  "take (length A) (A @ M1 @ S @ M2 @ R)
     @ take (length S) (drop (length A + length M1) (A @ M1 @ S @ M2 @ R))
     @ drop (length A + length M1 + length S + length M2) (A @ M1 @ S @ M2 @ R)
   = A @ S @ R"
  by simp

text \<open>
  Claim C2, as the code has it. For a span \<open>S\<close> that is a literal substring of the context
  \<open>C\<close>, \<open>find\<close> returns the offset \<open>p\<close> of the first occurrence, the result is \<open>C\<close> with
  that occurrence replaced by the marker, a blank, the span, a blank and the marker, the
  text before and after it unchanged, and deleting the two markers together with their
  blanks at that place gives \<open>C\<close> back. (Deleting the marker tokens alone leaves the two
  blanks, see \<open>remove_markers_counterexample\<close>.)
\<close>

theorem add_highlight_first_occurrence:
  assumes "sublist S C"
  shows "\<exists>p. str_find C S = int p
     \<and> C = take p C @ S @ drop (p + length S) C
     \<and> (\<forall>q<p. \<not> prefix S (drop q C))
     \<and> add_highlight self C (Some S)
         = Inr (Some (take p C @ ''<hl> '' @ S @ '' <hl>'' @ drop (p + length S) C))
     \<and> unwrap_span p (length S)
         (take p C @ ''<hl> '' @ S @ '' <hl>'' @ drop (p + length S) C) = C"
proof -
  from assms obtain p where p: "str_find C S = int p" "prefix S (drop p C)" "p \<le> length C"
    "\<forall>q<p. \<not> prefix S (drop q C)"
    by (rule sublist_find)
  have split: "C = take p C @ S @ drop (p + length S) C"
    using prefix_drop_split(1)[OF p(2)] .
  have hl: "add_highlight self C (Some S)
         = Inr (Some (take p C @ ''<hl> '' @ S @ '' <hl>'' @ drop (p + length S) C))"
    using p(1) by (simp add: ADDITIONAL_SP_TOKENS_hl_def)
  have len: "length (take p C) = p" using p(3) by simp
  have "unwrap_span p (length S)
         (take p C @ ''<hl> '' @ S @ '' <hl>'' @ drop (p + length S) C)
        = take p C @ S @ drop (p + length S) C"
    using unwrap_wrapped[where A = "take p C" and ?M1.0 = "''<hl> ''" and ?M2.0 = "'' <hl>''"
        and S = S and R = "drop (p + length S) C"] len
    by (simp add: unwrap_span_def ADDITIONAL_SP_TOKENS_hl_def)
  with split have "unwrap_span p (length S)
         (take p C @ ''<hl> '' @ S @ '' <hl>'' @ drop (p + length S) C) = C" by simp
  with p(1) split p(4) hl show ?thesis by blast
qed

theorem add_highlight_first_occurrence_witness:
  "sublist ''Tokyo'' ''I live in Tokyo.''
   \<and> str_find ''I live in Tokyo.'' ''Tokyo'' = 10
   \<and> list_all (\<lambda>q. \<not> prefix ''Tokyo'' (drop q ''I live in Tokyo.'')) [0..<10]
   \<and> add_highlight (example_encoder 64 8 False False False) ''I live in Tokyo.''
       (Some ''Tokyo'') = Inr (Some ''I live in <hl> Tokyo <hl>.'')
   \<and> unwrap_span 10 5 ''I live in <hl> Tokyo <hl>.'' = ''I live in Tokyo.''"
proof -
  have s: "sublist ''Tokyo'' ''I live in Tokyo.''"
    by (simp add: sublist_code)
  have f: "str_find ''I live in Tokyo.'' ''Tokyo'' = int 10" by simp
  from add_highlight_first_occurrence[OF s, of "example_encoder 64 8 False False False"]
  obtain p where p: "str_find ''I live in Tokyo.'' ''Tokyo'' = int p"
    "\<forall>q<p. \<not> prefix ''Tokyo'' (drop q ''I live in Tokyo.'')"
    "add_highlight (example_encoder 64 8 False False False) ''I live in Tokyo.'' (Some ''Tokyo'')
       = Inr (Some (take p ''I live in Tokyo.'' @ ''<hl> '' @ ''Tokyo'' @ '' <hl>''
                    @ drop (p + length ''Tokyo'') ''I live in Tokyo.''))"
    "unwrap_span p (length ''Tokyo'')
       (take p ''I live in Tokyo.'' @ ''<hl> '' @ ''Tokyo'' @ '' <hl>''
        @ drop (p + length ''Tokyo'') ''I live in Tokyo.'') = ''I live in Tokyo.''"
    by blast
  from p(1) f have p10: "p = 10" by simp
  have l5: "length ''Tokyo'' = 5" by simp
  from p(3) have hl: "add_highlight (example_encoder 64 8 False False False)
      ''I live in Tokyo.'' (Some ''Tokyo'') = Inr (Some ''I live in <hl> Tokyo <hl>.'')"
    unfolding p10 by simp
  from p(4) have uw: "unwrap_span 10 5 ''I live in <hl> Tokyo <hl>.'' = ''I live in Tokyo.''"
    unfolding p10 l5 by simp
  from p(2) have first: "\<forall>q<10. \<not> prefix ''Tokyo'' (drop q ''I live in Tokyo.'')"
    unfolding p10 .
  from first have "list_all (\<lambda>q. \<not> prefix ''Tokyo'' (drop q ''I live in Tokyo.'')) [0..<10]"
    by (simp only: list_all_iff set_upt atLeastLessThan_iff) simp
  with s f hl uw show ?thesis by simp
qed

text \<open>
  Claim C2 as stated fails where it says that removing the marker tokens restores the
  context exactly: on the scenario of the specification the two blanks stay.
\<close>

theorem remove_markers_counterexample:
  "add_highlight (example_encoder 64 8 False False False) ''Tokyo is the capital of Japan.''
      (Some ''Tokyo'') = Inr (Some ''<hl> Tokyo <hl> is the capital of Japan.'')
   \<and> remove_all ''<hl>'' ''<hl> Tokyo <hl> is the capital of Japan.''
       = '' Tokyo  is the capital of Japan.''
   \<and> remove_all ''<hl>'' ''<hl> Tokyo <hl> is the capital of Japan.''
       \<noteq> ''Tokyo is the capital of Japan.''"
  by (simp add: ADDITIONAL_SP_TOKENS_hl_def)



section \<open>The encoder\<close>

lemma encode_plus_not_found:
  "\<not> sublist S C \<Longrightarrow>
     encode_plus self C output_sequence (Some S)
       = (if skip_highlight_error self then Inr None else Inl (HighlightNotFoundError S C))"
  by (simp add: encode_plus_def str_find_none)

lemma encode_all_append:
  "encode_all f (xs @ ys) =
     (case encode_all f xs of
        Inl e \<Rightarrow> Inl e
      | Inr a \<Rightarrow> (case encode_all f ys of Inl e \<Rightarrow> Inl e | Inr b \<Rightarrow> Inr (a @ b)))"
  by (induction f xs rule: encode_all.induct) (auto split: sum.splits)

lemma filter_None_append: "filter_None (xs @ ys) = filter_None xs @ filter_None ys"
  by (induction xs rule: filter_None.induct) auto

text \<open>
  Claim C9. When the span \<open>S\<close> is not a substring of the context \<open>C\<close>, \<open>encode_plus\<close> raises
  \<open>HighlightNotFoundError\<close> with the span and the context, unless \<open>skip_highlight_error\<close> is
  set: then it returns \<open>None\<close>, and the encoding step of the loader leaves the example out
  of the list it builds the batches from, keeping the examples before and after it.
\<close>

theorem highlight_not_found:
  assumes "\<not> sublist S C"
  shows "encode_plus self C output_sequence (Some S)
           = (if skip_highlight_error self then Inr None
              else Inl (HighlightNotFoundError S C))
         \<and> (skip_highlight_error self \<and> encode_all self before = Inr a
              \<and> encode_all self after = Inr b
            \<longrightarrow> encode_fresh self (before @ (C, output_sequence, Some S) # after) None s
                  = (Inr (filter_None a @ filter_None b), s))"
  using encode_plus_not_found[OF assms, of self output_sequence]
  by (simp add: encode_fresh_def encode_all_append filter_None_append)

text \<open>
  Claim C4. When the highlighted and prefixed input has more tokens than \<open>max_length\<close>, or
  a given target has more tokens than \<open>max_length_output\<close>, \<open>encode_plus\<close> returns \<open>None\<close> if
  \<open>drop_overflow_text\<close> is set, raises \<open>ExceedMaxLengthError\<close> if neither it nor
  \<open>skip_overflow_error\<close> is set, and otherwise makes no check and returns the encoding the
  tokenizer produces under \<open>truncation=True\<close> and the maximal length of the input
  (of the output for the labels).
\<close>

theorem encode_plus_overflow:
  assumes "add_highlight self input_sequence input_highlight = Inr (Some highlighted)"
    and "int (length (tok_encode (tokenizer self) (add_task_prefix self highlighted) no_kwargs))
           > max_length self
         \<or> (output_sequence = Some target
            \<and> int (length (tok_encode (tokenizer self) target no_kwargs)) > max_length_output self)"
  shows "encode_plus self input_sequence output_sequence input_highlight
           = (if drop_overflow_text self then Inr None
              else if \<not> skip_overflow_error self then Inl (ExceedMaxLengthError (max_length self))
              else Inr (Some (tokenize self (add_task_prefix self highlighted) output_sequence)))
         \<and> tokenize self (add_task_prefix self highlighted) None
             = tok_encode_plus (tokenizer self) (add_task_prefix self highlighted)
                 \<lparr>truncation = True, kw_max_length = Some (max_length self),
                  kw_padding = (if padding self then Some ''max_length'' else None)\<rparr>
         \<and> labels (tokenize self (add_task_prefix self highlighted) (Some target))
             = Some (tok_encode (tokenizer self) target
                 \<lparr>truncation = True, kw_max_length = Some (max_length_output self),
                  kw_padding = (if padding self then Some ''max_length'' else None)\<rparr>)"
  using assms
  by (auto simp: encode_plus_def encode_checked_def param_in_def param_out_def
           simp del: add_task_prefix.simps)

text \<open>
  Claim C10. When the input fits and the target has more tokens than \<open>max_length_output\<close>,
  with \<open>drop_overflow_text\<close> and \<open>skip_overflow_error\<close> both unset, the
  \<open>ExceedMaxLengthError\<close> raised carries \<open>max_length\<close>, the limit of the input.
\<close>

theorem target_overflow_error_payload:
  assumes "add_highlight self input_sequence input_highlight = Inr (Some highlighted)"
    and "int (length (tok_encode (tokenizer self) (add_task_prefix self highlighted) no_kwargs))
           \<le> max_length self"
    and "int (length (tok_encode (tokenizer self) target no_kwargs)) > max_length_output self"
    and "\<not> drop_overflow_text self" and "\<not> skip_overflow_error self"
  shows "encode_plus self input_sequence (Some target) input_highlight
           = Inl (ExceedMaxLengthError (max_length self))"
  using assms
  by (simp add: encode_plus_def encode_checked_def del: add_task_prefix.simps)


lemmas ex_simps = example_encoder_def char_tok_def encode_plus_def encode_checked_def
  param_in_def param_out_def no_kwargs_def ADDITIONAL_SP_TOKENS_hl_def

theorem highlight_not_found_witness:
  "\<not> sublist ''c'' ''ab''
   \<and> encode_plus (example_encoder 64 3 False False False) ''ab'' None (Some ''c'')
       = Inl (HighlightNotFoundError ''c'' ''ab'')
   \<and> encode_plus (example_encoder 64 3 False False True) ''ab'' None (Some ''c'') = Inr None
   \<and> encode_fresh (example_encoder 64 3 False False True)
       ([(''xy'', None, None)] @ (''ab'', None, Some ''c'') # [(''z'', None, None)]) None empty_fs
      = (Inr [tok_encode_plus char_tok ''generate question: xy''
                \<lparr>truncation = True, kw_max_length = Some 64, kw_padding = None\<rparr>,
              tok_encode_plus char_tok ''generate question: z''
                \<lparr>truncation = True, kw_max_length = Some 64, kw_padding = None\<rparr>], empty_fs)"
proof -
  have n: "\<not> sublist ''c'' ''ab''" by (simp add: sublist_code)
  have a: "encode_all (example_encoder 64 3 False False True) [(''xy'', None, None)]
     = Inr [Some (tok_encode_plus char_tok ''generate question: xy''
         \<lparr>truncation = True, kw_max_length = Some 64, kw_padding = None\<rparr>)]"
    by (simp add: ex_simps)
  have b: "encode_all (example_encoder 64 3 False False True) [(''z'', None, None)]
     = Inr [Some (tok_encode_plus char_tok ''generate question: z''
         \<lparr>truncation = True, kw_max_length = Some 64, kw_padding = None\<rparr>)]"
    by (simp add: ex_simps)
  have sk: "skip_highlight_error (example_encoder 64 3 False False True)"
    "\<not> skip_highlight_error (example_encoder 64 3 False False False)"
    by (simp_all add: example_encoder_def)
  from highlight_not_found[OF n, of "example_encoder 64 3 False False False" None]
    highlight_not_found[OF n, of "example_encoder 64 3 False False True" None
      "[(''xy'', None, None)]" _ "[(''z'', None, None)]" _ empty_fs] a b sk n
  show ?thesis by simp
qed

theorem encode_plus_overflow_witness:
  "encode_plus (example_encoder 20 3 True False False) ''abc'' None None = Inr None
   \<and> encode_plus (example_encoder 20 3 False False False) ''abc'' None None
       = Inl (ExceedMaxLengthError 20)
   \<and> encode_plus (example_encoder 20 3 False True False) ''abc'' None None
       = Inr (Some (tok_encode_plus char_tok ''generate question: abc''
           \<lparr>truncation = True, kw_max_length = Some 20, kw_padding = None\<rparr>))
   \<and> length (input_ids (tok_encode_plus char_tok ''generate question: abc''
           \<lparr>truncation = True, kw_max_length = Some 20, kw_padding = None\<rparr>)) = 20
   \<and> encode_plus (example_encoder 64 3 True False False) ''abc'' (Some ''wxyz'') None = Inr None
   \<and> encode_plus (example_encoder 64 3 False False False) ''abc'' (Some ''wxyz'') None
       = Inl (ExceedMaxLengthError 64)
   \<and> labels (tokenize (example_encoder 64 3 False True False) ''generate question: abc''
        (Some ''wxyz'')) = Some [119, 120, 121]"
proof -
  have h: "add_highlight e ''abc'' None = Inr (Some ''abc'')" for e by simp
  have p: "add_task_prefix (example_encoder m n d so sh) ''abc'' = ''generate question: abc''"
    for m n d so sh by (simp add: example_encoder_def)
  have i: "int (length (tok_encode (tokenizer (example_encoder 20 3 d so sh))
             (add_task_prefix (example_encoder 20 3 d so sh) ''abc'') no_kwargs))
           > max_length (example_encoder 20 3 d so sh)
         \<or> (None = Some ''wxyz''
            \<and> int (length (tok_encode (tokenizer (example_encoder 20 3 d so sh)) ''wxyz'' no_kwargs))
               > max_length_output (example_encoder 20 3 d so sh))" for d so sh
    by (simp add: ex_simps)
  have t: "int (length (tok_encode (tokenizer (example_encoder 64 3 d so sh))
             (add_task_prefix (example_encoder 64 3 d so sh) ''abc'') no_kwargs))
           > max_length (example_encoder 64 3 d so sh)
         \<or> (Some ''wxyz'' = Some ''wxyz''
            \<and> int (length (tok_encode (tokenizer (example_encoder 64 3 d so sh)) ''wxyz'' no_kwargs))
               > max_length_output (example_encoder 64 3 d so sh))" for d so sh
    by (simp add: ex_simps)
  note A = encode_plus_overflow[OF h i, of True False False]
    encode_plus_overflow[OF h i, of False False False]
    encode_plus_overflow[OF h i, of False True False]
    encode_plus_overflow[OF h t, of True False False]
    encode_plus_overflow[OF h t, of False False False]
    encode_plus_overflow[OF h t, of False True False]
  have l: "length (input_ids (tok_encode_plus char_tok ''generate question: abc''
           \<lparr>truncation = True, kw_max_length = Some 20, kw_padding = None\<rparr>)) = 20"
    by (simp add: char_tok_def)
  from A l show ?thesis
    by (simp add: p) (simp add: example_encoder_def char_tok_def)
qed

theorem target_overflow_error_payload_witness:
  "encode_plus (example_encoder 64 3 False False False) ''abc'' (Some ''wxyz'') None
     = Inl (ExceedMaxLengthError 64)
   \<and> max_length_output (example_encoder 64 3 False False False) = 3
   \<and> length (tok_encode char_tok ''wxyz'' no_kwargs) = 4"
proof -
  have h: "add_highlight (example_encoder 64 3 False False False) ''abc'' None
             = Inr (Some ''abc'')" by simp
  have "encode_plus (example_encoder 64 3 False False False) ''abc'' (Some ''wxyz'') None
     = Inl (ExceedMaxLengthError (max_length (example_encoder 64 3 False False False)))"
    by (rule target_overflow_error_payload[OF h]) (simp_all add: ex_simps)
  then show ?thesis by (simp add: ex_simps)
qed



section \<open>Generation and the orchestrator\<close>

declare chunks.simps [simp del]

lemma concat_chunks: "0 < n \<Longrightarrow> concat (chunks n xs) = xs"
proof (induction n xs rule: chunks.induct)
  case (1 n xs)
  then show ?case by (subst chunks.simps) auto
qed

lemma length_concat_map_chunks:
  assumes "\<And>b. length (g b) = length b" and "0 < n"
  shows "length (concat (map g (chunks n xs))) = length xs"
  using assms(2)
proof (induction n xs rule: chunks.induct)
  case (1 n xs)
  show ?case
  proof (cases "xs = []")
    case True
    then show ?thesis by (subst chunks.simps) simp
  next
    case False
    with 1 have "length (concat (map g (chunks n (drop n xs)))) = length (drop n xs)" by simp
    with False 1(2) show ?thesis
      by (subst chunks.simps) (simp add: assms(1) min_def)
  qed
qed

lemma DataLoader_init_Inr:
  "DataLoader_init data bs sh nw dl = Inr loader \<Longrightarrow>
     dataset loader = data \<and> batch_size loader = bs \<and> 0 < bs \<and> drop_last loader = dl
     \<and> shuffle loader = sh"
  by (auto simp: DataLoader_init_def split: if_splits)

lemma get_data_loader_Inr:
  assumes "get_data_loader self inputs outputs highlights tp bs nw sh dl cp d so shl par s
             = (Inr loader, s')"
  shows "0 < batch_size loader \<and> drop_last loader = dl \<and> shuffle loader = sh"
  using assms
  by (auto simp: get_data_loader_def split: sum.splits prod.splits option.splits if_splits
      dest: DataLoader_init_Inr)

lemma generate_prediction_Inr:
  assumes "generate_prediction self lc lh tt d so shl par bs nb nw cp s = (Inr outs, s')"
  obtains loader where
    "get_data_loader self lc None lh tt bs nw False False cp d so shl par s = (Inr loader, s')"
    "outs = concat (map (\<lambda>encode. generate self encode (t5_max_length_output self) nb)
                     (chunks (nat (batch_size loader)) (dataset loader)))"
    "0 < batch_size loader"
proof -
  from assms obtain loader where
    l: "get_data_loader self lc None lh tt bs nw False False cp d so shl par s = (Inr loader, s')"
    and o: "outs = concat (map (\<lambda>encode. generate self encode (t5_max_length_output self) nb)
                     (batches loader))"
    by (auto simp: generate_prediction_def split: sum.splits prod.splits)
  from get_data_loader_Inr[OF l] have "0 < batch_size loader" "\<not> drop_last loader" by auto
  with l o that show thesis by (simp add: batches_def)
qed

lemma generate_prediction_length:
  assumes gen: "\<forall>b ml nb. length (generate self b ml nb) = length b"
    and "generate_prediction self lc lh tt d so shl par bs nb nw cp s = (Inr outs, s')"
  obtains loader where
    "get_data_loader self lc None lh tt bs nw False False cp d so shl par s = (Inr loader, s')"
    "length outs = length (dataset loader)"
proof -
  from assms(2) obtain loader where
    l: "get_data_loader self lc None lh tt bs nw False False cp d so shl par s = (Inr loader, s')"
    and o: "outs = concat (map (\<lambda>encode. generate self encode (t5_max_length_output self) nb)
                     (chunks (nat (batch_size loader)) (dataset loader)))"
    and b: "0 < batch_size loader"
    by (rule generate_prediction_Inr)
  from b have "0 < nat (batch_size loader)" by simp
  from length_concat_map_chunks[of "\<lambda>encode. generate self encode (t5_max_length_output self) nb",
      OF _ this, of "dataset loader"] gen o
  have "length outs = length (dataset loader)" by simp
  with l that show thesis by blast
qed

lemma make_data_length: "make_data inputs outputs highlights = Inr data \<Longrightarrow> length data = length inputs"
  by (auto simp: make_data_def split: option.splits if_splits)

lemma encode_all_length: "encode_all f data = Inr outs \<Longrightarrow> length outs = length data"
  by (induction f data arbitrary: outs rule: encode_all.induct) (auto split: sum.splits)

lemma encode_plus_Some:
  "encode_plus f i t h = Inr r \<Longrightarrow> \<not> drop_overflow_text f \<Longrightarrow> \<not> skip_highlight_error f \<Longrightarrow> r \<noteq> None"
  by (cases h)
     (auto simp: encode_plus_def encode_checked_def Let_def
           simp del: add_task_prefix.simps split: if_splits option.splits)

lemma encode_all_no_None:
  "encode_all f data = Inr outs \<Longrightarrow> \<not> drop_overflow_text f \<Longrightarrow> \<not> skip_highlight_error f
     \<Longrightarrow> None \<notin> set outs"
  by (induction f data arbitrary: outs rule: encode_all.induct)
     (auto split: sum.splits dest: encode_plus_Some)

lemma filter_None_length: "None \<notin> set xs \<Longrightarrow> length (filter_None xs) = length xs"
  by (induction xs rule: filter_None.induct) auto

lemma get_data_loader_fresh:
  assumes "get_data_loader self inputs outputs highlights tp bs nw sh dl cp d so shl par s
             = (Inr loader, s')"
    and "\<forall>p. cp = Some p \<longrightarrow> \<not> path_exists s p"
  obtains data tp' outs where
    "make_data inputs outputs highlights = Inr data" "resolve_prefix self tp = Inr tp'"
    "encode_all (encoder_config self tp' d so shl (length data)) data = Inr outs"
    "dataset loader = filter_None outs"
  using assms
  by (auto simp: get_data_loader_def encode_fresh_def
           split: sum.splits prod.splits option.splits if_splits
           dest!: DataLoader_init_Inr)


text \<open>
  Claim C1, as the code has it. With a model that returns one string for each example of
  a batch: when \<open>generate_qa\<close> returns, its result is the zip of the questions with the
  answers of the extraction stage, one pair for each answer (the code asserts the two
  lengths equal and fails otherwise); when \<open>generate_q\<close> returns and no cache file is read,
  it returns one string for each example that the encoder did not drop, so at most one for
  each context, and exactly one for each context when \<open>drop_overflow_text\<close> is unset.
\<close>

theorem generate_lengths:
  assumes gen: "\<forall>b ml nb. length (generate self b ml nb) = length b"
  shows "(generate_qa self context d so par bs nb nw cp s = (Inr qa_list, s') \<longrightarrow>
            (\<exists>list_answer list_question s1.
                generate_a self context d so par bs nb nw cp s = (Inr list_answer, s1)
              \<and> generate_q self (replicate (length list_answer) context) (Some list_answer)
                    d so par bs nb nw cp s1 = (Inr list_question, s')
              \<and> qa_list = zip list_question list_answer
              \<and> length qa_list = length list_answer))
       \<and> ((\<forall>p. cq = Some p \<longrightarrow> \<not> path_exists t p)
            \<and> generate_q self list_context list_answer dq so par bs nb nw cq t = (Inr qs, t') \<longrightarrow>
            (\<exists>data tp outs.
                make_data list_context None (map_option (map Some) list_answer) = Inr data
              \<and> resolve_prefix self (Some qg) = Inr tp
              \<and> encode_all (encoder_config self tp dq so False (length data)) data = Inr outs
              \<and> length qs = length (filter_None outs)
              \<and> length qs \<le> length list_context
              \<and> (\<not> dq \<longrightarrow> length qs = length list_context)))"
proof (intro conjI impI)
  assume "generate_qa self context d so par bs nb nw cp s = (Inr qa_list, s')"
  then show "\<exists>list_answer list_question s1.
                generate_a self context d so par bs nb nw cp s = (Inr list_answer, s1)
              \<and> generate_q self (replicate (length list_answer) context) (Some list_answer)
                    d so par bs nb nw cp s1 = (Inr list_question, s')
              \<and> qa_list = zip list_question list_answer
              \<and> length qa_list = length list_answer"
    by (auto simp: generate_qa_def Let_def split: sum.splits prod.splits if_splits)
next
  assume a: "(\<forall>p. cq = Some p \<longrightarrow> \<not> path_exists t p)
            \<and> generate_q self list_context list_answer dq so par bs nb nw cq t = (Inr qs, t')"
  then have gp: "generate_prediction self list_context (map_option (map Some) list_answer)
      (Some qg) dq so False par bs nb nw cq t = (Inr qs, t')"
    by (simp add: generate_q_def)
  from gen gp obtain loader where
    l: "get_data_loader self list_context None (map_option (map Some) list_answer) (Some qg)
          bs nw False False cq dq so False par t = (Inr loader, t')"
    and len: "length qs = length (dataset loader)"
    by (rule generate_prediction_length)
  from l a obtain data tp outs where
    d: "make_data list_context None (map_option (map Some) list_answer) = Inr data"
    and r: "resolve_prefix self (Some qg) = Inr tp"
    and e: "encode_all (encoder_config self tp dq so False (length data)) data = Inr outs"
    and ds: "dataset loader = filter_None outs"
    by (auto elim: get_data_loader_fresh)
  have le: "length (filter_None outs) \<le> length outs"
    by (induction outs rule: filter_None.induct) auto
  from encode_all_length[OF e] make_data_length[OF d]
  have lo: "length outs = length list_context" by simp
  have "\<not> dq \<longrightarrow> None \<notin> set outs"
    using encode_all_no_None[OF e] by (simp add: encoder_config_def)
  then have "\<not> dq \<longrightarrow> length (filter_None outs) = length outs"
    by (simp add: filter_None_length)
  with d r e ds len le lo
  show "\<exists>data tp outs.
                make_data list_context None (map_option (map Some) list_answer) = Inr data
              \<and> resolve_prefix self (Some qg) = Inr tp
              \<and> encode_all (encoder_config self tp dq so False (length data)) data = Inr outs
              \<and> length qs = length (filter_None outs)
              \<and> length qs \<le> length list_context
              \<and> (\<not> dq \<longrightarrow> length qs = length list_context)"
    by auto
qed


lemmas run_simps = generate_qa_def generate_a_def generate_q_def generate_prediction_def
  get_data_loader_def make_data_def resolve_prefix_def encode_fresh_def encoder_config_def
  DataLoader_init_def batches_def example_T5_def example_generate_def
  encode_plus_def encode_checked_def param_in_def param_out_def no_kwargs_def char_tok_def
  ADDITIONAL_SP_TOKENS_hl_def clean_def isspace_def chunks.simps sublist_code
  path_exists_def pickle_load_def

lemma example_generate_length: "length (generate (example_T5 m example_generate sp) b ml nb) = length b"
  by (simp add: example_T5_def example_generate_def)

theorem generate_lengths_witness:
  "(\<forall>b ml nb. length (generate (example_T5 64 example_generate (\<lambda>c. [c])) b ml nb) = length b)
   \<and> generate_qa (example_T5 64 example_generate (\<lambda>c. [c])) ''I live in Tokyo.''
        False False False None 4 0 None empty_fs
      = (Inr [(''Where do I live?'', ''Tokyo'')], empty_fs)
   \<and> (\<exists>list_answer list_question s1.
         generate_a (example_T5 64 example_generate (\<lambda>c. [c])) ''I live in Tokyo.''
           False False False None 4 0 None empty_fs = (Inr list_answer, s1)
       \<and> [(''Where do I live?'', ''Tokyo'')] = zip list_question list_answer
       \<and> length list_answer = 1)
   \<and> \<not> path_exists empty_fs ''c/q.pkl''
   \<and> fst (generate_q (example_T5 64 example_generate (\<lambda>c. [c])) [''I live in Tokyo.'', ''b'']
        None False False False None 4 0 (Some ''c/q.pkl'') empty_fs)
      = Inr [''Where do I live?'', ''Where do I live?'']
   \<and> length [''Where do I live?'', ''Where do I live?''] = length [''I live in Tokyo.'', ''b'']"
proof -
  let ?T = "(example_T5 64 example_generate (\<lambda>c. [c]))"
  let ?run = "generate_q ?T [''I live in Tokyo.'', ''b'']
        None False False False None 4 0 (Some ''c/q.pkl'') empty_fs"
  have g: "\<forall>b ml nb. length (generate ?T b ml nb) = length b"
    by (simp add: example_generate_length)
  have run_qa: "generate_qa ?T ''I live in Tokyo.'' False False False None 4 0 None empty_fs
    = (Inr [(''Where do I live?'', ''Tokyo'')], empty_fs)"
    by (simp add: run_simps)
  have ne: "\<not> path_exists empty_fs ''c/q.pkl''"
    by (simp add: path_exists_def empty_fs_def)
  have run_q: "fst ?run = Inr [''Where do I live?'', ''Where do I live?'']"
    by (simp add: run_simps makedirs_def pickle_save_def dirname_def empty_fs_def)
  then have run_q': "?run = (Inr [''Where do I live?'', ''Where do I live?''], snd ?run)"
    by (metis prod.collapse)
  note A = generate_lengths[OF g, of "''I live in Tokyo.''" False False False None 4 0 None
      empty_fs "[(''Where do I live?'', ''Tokyo'')]" empty_fs "Some ''c/q.pkl''" empty_fs
      "[''I live in Tokyo.'', ''b'']" None False "[''Where do I live?'', ''Where do I live?'']"
      "snd ?run"]
  from A run_qa have qa:
    "\<exists>list_answer list_question s1.
         generate_a ?T ''I live in Tokyo.''
           False False False None 4 0 None empty_fs = (Inr list_answer, s1)
       \<and> [(''Where do I live?'', ''Tokyo'')] = zip list_question list_answer
       \<and> length list_answer = 1"
    by auto
  from A ne run_q' have
    "length [''Where do I live?'', ''Where do I live?''] = length [''I live in Tokyo.'', ''b'']"
    by auto
  with g run_qa qa ne run_q show ?thesis by blast
qed

text \<open>
  Claim C1 as stated fails for \<open>generate_q\<close>: with \<open>drop_overflow_text\<close> set an overflowing
  context is left out, and a cache file that is present is read in place of the input.
\<close>

theorem generate_q_length_counterexample:
  "generate_q (example_T5 24 example_generate (\<lambda>c. [c])) [''ab'', ''abcdefgh'']
      None True False False None 4 0 None empty_fs
    = (Inr [''Where do I live?''], empty_fs)
   \<and> length [''Where do I live?''] \<noteq> length [''ab'', ''abcdefgh'']
   \<and> generate_q (example_T5 24 example_generate (\<lambda>c. [c])) [''ab'', ''cd'']
      None False False False None 4 0 (Some ''c/q.pkl'')
      (cached_fs ''c/q.pkl'' [\<lparr>input_ids = [1], attention_mask = [1], labels = None\<rparr>])
    = (Inr [''Where do I live?''],
       cached_fs ''c/q.pkl'' [\<lparr>input_ids = [1], attention_mask = [1], labels = None\<rparr>])"
  by (simp add: run_simps cached_fs_def)



section \<open>Answer extraction\<close>

lemma clean_trim: "clean x = (if trim x = [] then None else Some (trim x))"
  by (simp add: clean_def trim_def Let_def)

lemma filter_None_clean:
  "filter_None (map clean out) = filter (\<lambda>x. x \<noteq> []) (map trim out)"
  by (induction out) (simp_all add: clean_trim)

lemma trim_split:
  "\<exists>l r. x = l @ trim x @ r \<and> list_all isspace l \<and> list_all isspace r"
proof -
  let ?s1 = "dropWhile isspace x"
  have a: "x = takeWhile isspace x @ ?s1" by simp
  have "?s1 = rev (rev ?s1)" by simp
  also have "\<dots> = rev (takeWhile isspace (rev ?s1) @ dropWhile isspace (rev ?s1))"
    by (simp only: takeWhile_dropWhile_id)
  also have "\<dots> = rev (dropWhile isspace (rev ?s1)) @ rev (takeWhile isspace (rev ?s1))"
    by (simp only: rev_append)
  finally have b: "?s1 = trim x @ rev (takeWhile isspace (rev ?s1))"
    by (simp only: trim_def)
  have c: "list_all isspace (takeWhile isspace x)"
    "list_all isspace (rev (takeWhile isspace (rev ?s1)))"
    by (auto simp: list_all_iff dest: set_takeWhileD)
  from a b have "x = takeWhile isspace x @ trim x @ rev (takeWhile isspace (rev ?s1))"
    by metis
  with c show ?thesis by blast
qed

lemma trim_ends:
  assumes "trim x \<noteq> []"
  shows "\<not> isspace (hd (trim x))" and "\<not> isspace (last (trim x))"
proof -
  let ?s1 = "dropWhile isspace x"
  let ?d = "dropWhile isspace (rev ?s1)"
  from assms have d: "?d \<noteq> []" by (simp add: trim_def)
  have s1: "?s1 \<noteq> []"
  proof
    assume "?s1 = []"
    then have "?d = []" by (metis rev.simps(1) dropWhile.simps(1))
    with d show False by blast
  qed
  have "last (trim x) = hd ?d" using d by (simp add: trim_def last_rev)
  moreover have "\<not> isspace (hd ?d)" using d by (rule hd_dropWhile)
  ultimately show "\<not> isspace (last (trim x))" by simp
  have "rev ?s1 = takeWhile isspace (rev ?s1) @ ?d" by simp
  then have "last (rev ?s1) = last ?d" using d by (metis last_appendR)
  then have "hd ?s1 = last ?d" using s1 by (simp add: last_rev)
  moreover have "hd (trim x) = last ?d" using d by (simp add: trim_def hd_rev)
  moreover have "\<not> isspace (hd ?s1)" using s1 by (rule hd_dropWhile)
  ultimately show "\<not> isspace (hd (trim x))" by simp
qed

text \<open>
  Claim C3. Once the decoded outputs of the extraction stage are there, \<open>generate_a\<close>
  returns them trimmed of the white space at both ends, without those that became empty
  and without those that are no substring of the context, in their order; it raises
  \<open>AnswerNotFoundError\<close> with the context exactly when that list is empty. Trimming removes
  white space only, and what it leaves neither starts nor ends with white space.
\<close>

theorem generate_a_filter:
  assumes "\<not> no_prefix self"
    and "generate_prediction self
           (replicate (length (sentence_splitter self context)) context)
           (Some (map clean (sentence_splitter self context))) (Some ans_ext)
           d so False par bs nb nw cp s = (Inr decoded, s')"
  shows "generate_a self context d so par bs nb nw cp s
           = (if usable_answers context decoded = [] then Inl (AnswerNotFoundError context)
              else Inr (usable_answers context decoded), s')
         \<and> (\<forall>x. \<exists>l r. x = l @ trim x @ r \<and> list_all isspace l \<and> list_all isspace r
                \<and> (trim x = [] \<or> (\<not> isspace (hd (trim x)) \<and> \<not> isspace (last (trim x)))))"
proof -
  have "generate_a self context d so par bs nb nw cp s
           = (if usable_answers context decoded = [] then Inl (AnswerNotFoundError context)
              else Inr (usable_answers context decoded), s')"
    using assms by (simp add: generate_a_def Let_def usable_answers_def filter_None_clean)
  moreover have "\<exists>l r. x = l @ trim x @ r \<and> list_all isspace l \<and> list_all isspace r
                \<and> (trim x = [] \<or> (\<not> isspace (hd (trim x)) \<and> \<not> isspace (last (trim x))))" for x
    using trim_split[of x] trim_ends[of x] by blast
  ultimately show ?thesis by blast
qed

theorem generate_a_filter_witness:
  "\<not> no_prefix (example_T5 64 example_generate (\<lambda>c. [c]))
   \<and> generate_prediction (example_T5 64 example_generate (\<lambda>c. [c]))
        (replicate (length (sentence_splitter (example_T5 64 example_generate (\<lambda>c. [c]))
           ''I live in Tokyo.'')) ''I live in Tokyo.'')
        (Some (map clean (sentence_splitter (example_T5 64 example_generate (\<lambda>c. [c]))
           ''I live in Tokyo.''))) (Some ans_ext)
        False False False False None 4 0 None empty_fs = (Inr ['' Tokyo ''], empty_fs)
   \<and> generate_a (example_T5 64 example_generate (\<lambda>c. [c])) ''I live in Tokyo.''
        False False False None 4 0 None empty_fs = (Inr [''Tokyo''], empty_fs)
   \<and> generate_a (example_T5 64 (\<lambda>b ml nb. map (\<lambda>e. ''Paris'') b) (\<lambda>c. [c])) ''I live in Tokyo.''
        False False False None 4 0 None empty_fs
      = (Inl (AnswerNotFoundError ''I live in Tokyo.''), empty_fs)"
proof -
  have np: "\<not> no_prefix (example_T5 64 g (\<lambda>c. [c]))" for g
    by (simp add: example_T5_def)
  have gp: "generate_prediction (example_T5 64 example_generate (\<lambda>c. [c]))
        (replicate (length (sentence_splitter (example_T5 64 example_generate (\<lambda>c. [c]))
           ''I live in Tokyo.'')) ''I live in Tokyo.'')
        (Some (map clean (sentence_splitter (example_T5 64 example_generate (\<lambda>c. [c]))
           ''I live in Tokyo.''))) (Some ans_ext)
        False False False False None 4 0 None empty_fs = (Inr ['' Tokyo ''], empty_fs)"
    by (simp add: run_simps)
  have gp2: "generate_prediction (example_T5 64 (\<lambda>b ml nb. map (\<lambda>e. ''Paris'') b) (\<lambda>c. [c]))
        (replicate (length (sentence_splitter
           (example_T5 64 (\<lambda>b ml nb. map (\<lambda>e. ''Paris'') b) (\<lambda>c. [c]))
           ''I live in Tokyo.'')) ''I live in Tokyo.'')
        (Some (map clean (sentence_splitter
           (example_T5 64 (\<lambda>b ml nb. map (\<lambda>e. ''Paris'') b) (\<lambda>c. [c]))
           ''I live in Tokyo.''))) (Some ans_ext)
        False False False False None 4 0 None empty_fs = (Inr [''Paris''], empty_fs)"
    by (simp add: run_simps)
  have ua: "usable_answers ''I live in Tokyo.'' ['' Tokyo ''] = [''Tokyo'']"
    "usable_answers ''I live in Tokyo.'' [''Paris''] = []"
    by (simp_all add: usable_answers_def trim_def isspace_def sublist_code)
  from generate_a_filter[OF np gp] generate_a_filter[OF np gp2] ua np gp
  show ?thesis by simp
qed







section \<open>The cache of the data loader\<close>

lemma dirname_Nil: "dirname [] = []"
  by (simp add: dirname_def)

lemma length_rev_dropWhile: "length (rev (dropWhile P (rev xs))) \<le> length xs"
  by (metis length_dropWhile_le length_rev)

lemma dirname_shorter:
  assumes "p \<noteq> []" and "last p \<noteq> CHR ''/''"
  shows "length (dirname p) < length p"
proof -
  let ?head = "rev (dropWhile (\<lambda>c. c \<noteq> CHR ''/'') (rev p))"
  from assms have "rev p \<noteq> []" "hd (rev p) \<noteq> CHR ''/''" by (simp_all add: hd_rev)
  then have "dropWhile (\<lambda>c. c \<noteq> CHR ''/'') (rev p)
               = dropWhile (\<lambda>c. c \<noteq> CHR ''/'') (tl (rev p))"
    by (cases "rev p") auto
  then have "length ?head \<le> length (tl (rev p))"
    by (metis length_dropWhile_le length_rev)
  moreover have "length (tl (rev p)) = length p - 1" by simp
  moreover from assms(1) have "0 < length p" by simp
  ultimately have h: "length ?head < length p" by linarith
  have "length (rev (dropWhile (\<lambda>c. c = CHR ''/'') (rev ?head))) \<le> length ?head"
    by (rule length_rev_dropWhile)
  with h show ?thesis by (simp add: dirname_def Let_def)
qed

lemma dirname_le: "length (dirname p) \<le> length p"
proof -
  let ?head = "rev (dropWhile (\<lambda>c. c \<noteq> CHR ''/'') (rev p))"
  have h: "length ?head \<le> length p" by (rule length_rev_dropWhile)
  have "length (rev (dropWhile (\<lambda>c. c = CHR ''/'') (rev ?head))) \<le> length ?head"
    by (rule length_rev_dropWhile)
  with h show ?thesis by (simp add: dirname_def Let_def)
qed

lemma path_chain_length: "q \<in> set (path_chain n p) \<Longrightarrow> length q \<le> length p"
proof (induction n p rule: path_chain.induct)
  case (1 p)
  then show ?case by simp
next
  case (2 n p)
  then show ?case using dirname_le[of p] by (auto split: if_splits)
qed

lemma path_chain_head: "p \<noteq> [] \<Longrightarrow> p \<in> set (path_chain (length p) p)"
  by (cases p) auto

lemma makedirs_ok:
  assumes "name \<noteq> []"
    and "\<not> list_ex (\<lambda>d. files s d \<noteq> None) (path_chain (length name) name)"
  shows "makedirs name s = Inr (s\<lparr>dirs := dirs s \<union> set (path_chain (length name) name)\<rparr>)"
proof -
  from assms(1) have "name \<in> set (path_chain (length name) name)" by (rule path_chain_head)
  with assms(2) have "files s name = None" by (auto simp: list_ex_iff)
  with assms show ?thesis by (simp add: makedirs_def)
qed

lemma persist_ok:
  assumes ne: "\<not> path_exists s path" and d: "dirname path \<noteq> []"
    and l: "last path \<noteq> CHR ''/''"
    and c: "\<not> list_ex (\<lambda>d. files s d \<noteq> None)
               (path_chain (length (dirname path)) (dirname path))"
  shows "\<exists>s1. makedirs (dirname path) s = Inr s1
           \<and> pickle_save obj path s1
               = Inr (s\<lparr>dirs := dirs s \<union> set (path_chain (length (dirname path)) (dirname path)),
                       files := (files s)(path \<mapsto> obj)\<rparr>)"
proof -
  let ?chain = "path_chain (length (dirname path)) (dirname path)"
  let ?s1 = "s\<lparr>dirs := dirs s \<union> set ?chain\<rparr>"
  have m: "makedirs (dirname path) s = Inr ?s1" using d c by (rule makedirs_ok)
  from d have p: "path \<noteq> []" using dirname_Nil by auto
  have "path \<notin> set ?chain"
  proof
    assume "path \<in> set ?chain"
    then have "length path \<le> length (dirname path)" by (rule path_chain_length)
    with dirname_shorter[OF p l] show False by simp
  qed
  moreover from ne have "path \<notin> dirs s" by (simp add: path_exists_def)
  moreover from d have "dirname path \<in> set ?chain" by (rule path_chain_head)
  ultimately have "pickle_save obj path ?s1
               = Inr (s\<lparr>dirs := dirs s \<union> set ?chain, files := (files s)(path \<mapsto> obj)\<rparr>)"
    using p l d by (simp add: pickle_save_def)
  with m show ?thesis by blast
qed

text \<open>
  Claim C8, as the code has it, for inputs whose lengths agree and a prefix the model
  accepts. When a cache file is at the path, the loader is built from the cached list as
  it is, whatever the inputs are. When nothing is at the path, the path has a directory
  part and is no directory name, no file stands where a directory is needed, and the
  encoding raises no error, the loader creates the directory, writes the filtered list to
  the path and is built from that list; a second call then reads the file and builds the
  same loader, which is also the loader of a call without a cache path.
\<close>

theorem cache_load_and_persist:
  assumes md: "make_data inputs outputs highlights = Inr data"
    and rp: "resolve_prefix self tp = Inr tp'"
  shows "(files s path = Some cached \<longrightarrow>
            get_data_loader self inputs outputs highlights tp bs nw sh dl (Some path)
              d so shl par s
            = (DataLoader_init cached
                 (case bs of None \<Rightarrow> int (length cached) | Some b \<Rightarrow> b) sh nw dl, s))
       \<and> (\<not> path_exists s path \<and> dirname path \<noteq> [] \<and> last path \<noteq> CHR ''/''
          \<and> \<not> list_ex (\<lambda>d. files s d \<noteq> None)
                 (path_chain (length (dirname path)) (dirname path))
          \<and> encode_all (encoder_config self tp' d so shl (length data)) data = Inr out
          \<longrightarrow>
            (\<exists>s2. get_data_loader self inputs outputs highlights tp bs nw sh dl (Some path)
                     d so shl par s
                   = (DataLoader_init (filter_None out)
                        (case bs of None \<Rightarrow> int (length (filter_None out)) | Some b \<Rightarrow> b)
                        sh nw dl, s2)
                 \<and> files s2 path = Some (filter_None out)
                 \<and> dirname path \<in> dirs s2
                 \<and> get_data_loader self inputs outputs highlights tp bs nw sh dl (Some path)
                     d so shl par s2
                   = (DataLoader_init (filter_None out)
                        (case bs of None \<Rightarrow> int (length (filter_None out)) | Some b \<Rightarrow> b)
                        sh nw dl, s2)
                 \<and> get_data_loader self inputs outputs highlights tp bs nw sh dl None
                     d so shl par s
                   = (DataLoader_init (filter_None out)
                        (case bs of None \<Rightarrow> int (length (filter_None out)) | Some b \<Rightarrow> b)
                        sh nw dl, s)))"
proof (intro conjI impI)
  assume "files s path = Some cached"
  then show "get_data_loader self inputs outputs highlights tp bs nw sh dl (Some path)
              d so shl par s
            = (DataLoader_init cached
                 (case bs of None \<Rightarrow> int (length cached) | Some b \<Rightarrow> b) sh nw dl, s)"
    using md rp by (simp add: get_data_loader_def path_exists_def pickle_load_def)
next
  assume a: "\<not> path_exists s path \<and> dirname path \<noteq> [] \<and> last path \<noteq> CHR ''/''
          \<and> \<not> list_ex (\<lambda>d. files s d \<noteq> None)
                 (path_chain (length (dirname path)) (dirname path))
          \<and> encode_all (encoder_config self tp' d so shl (length data)) data = Inr out"
  let ?chain = "path_chain (length (dirname path)) (dirname path)"
  let ?s2 = "s\<lparr>dirs := dirs s \<union> set ?chain, files := (files s)(path \<mapsto> filter_None out)\<rparr>"
  let ?L = "DataLoader_init (filter_None out)
              (case bs of None \<Rightarrow> int (length (filter_None out)) | Some b \<Rightarrow> b) sh nw dl"
  from a obtain s1 where s1: "makedirs (dirname path) s = Inr s1"
    "pickle_save (filter_None out) path s1 = Inr ?s2"
    using persist_ok[of s path "filter_None out"] by blast
  from a s1 have fresh: "encode_fresh (encoder_config self tp' d so shl (length data)) data
      (Some path) s = (Inr (filter_None out), ?s2)"
    by (simp add: encode_fresh_def)
  from a have fresh0: "encode_fresh (encoder_config self tp' d so shl (length data)) data
      None s = (Inr (filter_None out), s)"
    by (simp add: encode_fresh_def)
  have g1: "get_data_loader self inputs outputs highlights tp bs nw sh dl (Some path)
              d so shl par s = (?L, ?s2)"
    using md rp a fresh by (simp add: get_data_loader_def)
  have f2: "files ?s2 path = Some (filter_None out)" by simp
  from a have "dirname path \<in> set ?chain" by (simp add: path_chain_head)
  then have d2: "dirname path \<in> dirs ?s2" by simp
  have g2: "get_data_loader self inputs outputs highlights tp bs nw sh dl (Some path)
              d so shl par ?s2 = (?L, ?s2)"
    using md rp by (simp add: get_data_loader_def path_exists_def pickle_load_def)
  have g3: "get_data_loader self inputs outputs highlights tp bs nw sh dl None
              d so shl par s = (?L, s)"
    using md rp fresh0 by (simp add: get_data_loader_def)
  from g1 f2 d2 g2 g3
  show "\<exists>s2. get_data_loader self inputs outputs highlights tp bs nw sh dl (Some path)
                     d so shl par s
                   = (DataLoader_init (filter_None out)
                        (case bs of None \<Rightarrow> int (length (filter_None out)) | Some b \<Rightarrow> b)
                        sh nw dl, s2)
                 \<and> files s2 path = Some (filter_None out)
                 \<and> dirname path \<in> dirs s2
                 \<and> get_data_loader self inputs outputs highlights tp bs nw sh dl (Some path)
                     d so shl par s2
                   = (DataLoader_init (filter_None out)
                        (case bs of None \<Rightarrow> int (length (filter_None out)) | Some b \<Rightarrow> b)
                        sh nw dl, s2)
                 \<and> get_data_loader self inputs outputs highlights tp bs nw sh dl None
                     d so shl par s
                   = (DataLoader_init (filter_None out)
                        (case bs of None \<Rightarrow> int (length (filter_None out)) | Some b \<Rightarrow> b)
                        sh nw dl, s)"
    by blast
qed

theorem cache_load_and_persist_witness:
  "make_data [''ab''] None None = Inr [(''ab'', None, None)]
   \<and> resolve_prefix (example_T5 64 example_generate (\<lambda>c. [c])) (Some qg) = Inr (Some qg)
   \<and> files (cached_fs ''c/q.pkl'' [\<lparr>input_ids = [1], attention_mask = [1], labels = None\<rparr>]) ''c/q.pkl''
       = Some [\<lparr>input_ids = [1], attention_mask = [1], labels = None\<rparr>]
   \<and> get_data_loader (example_T5 64 example_generate (\<lambda>c. [c])) [''ab''] None None (Some qg) None 0 False False
        (Some ''c/q.pkl'') False False False False (cached_fs ''c/q.pkl'' [\<lparr>input_ids = [1], attention_mask = [1], labels = None\<rparr>])
      = (Inr \<lparr>dataset = [\<lparr>input_ids = [1], attention_mask = [1], labels = None\<rparr>], batch_size = 1, shuffle = False,
          num_workers = 0, drop_last = False\<rparr>,
         cached_fs ''c/q.pkl'' [\<lparr>input_ids = [1], attention_mask = [1], labels = None\<rparr>])
   \<and> \<not> path_exists empty_fs ''c/q.pkl'' \<and> dirname ''c/q.pkl'' = ''c''
   \<and> encode_all (encoder_config (example_T5 64 example_generate (\<lambda>c. [c])) (Some qg) False False False 1)
         [(''ab'', None, None)]
       = Inr [Some (tok_encode_plus char_tok ''generate question: ab'' \<lparr>truncation = True, kw_max_length = Some 64, kw_padding = None\<rparr>)]
   \<and> fst (get_data_loader (example_T5 64 example_generate (\<lambda>c. [c])) [''ab''] None None (Some qg) None 0 False False
        (Some ''c/q.pkl'') False False False False empty_fs)
      = Inr \<lparr>dataset = [tok_encode_plus char_tok ''generate question: ab'' \<lparr>truncation = True, kw_max_length = Some 64, kw_padding = None\<rparr>], batch_size = 1, shuffle = False,
          num_workers = 0, drop_last = False\<rparr>
   \<and> files (snd (get_data_loader (example_T5 64 example_generate (\<lambda>c. [c])) [''ab''] None None (Some qg) None 0 False False
        (Some ''c/q.pkl'') False False False False empty_fs)) ''c/q.pkl''
      = Some [tok_encode_plus char_tok ''generate question: ab'' \<lparr>truncation = True, kw_max_length = Some 64, kw_padding = None\<rparr>]
   \<and> ''c'' \<in> dirs (snd (get_data_loader (example_T5 64 example_generate (\<lambda>c. [c])) [''ab''] None None (Some qg) None 0 False False
        (Some ''c/q.pkl'') False False False False empty_fs))
   \<and> fst (get_data_loader (example_T5 64 example_generate (\<lambda>c. [c])) [''ab''] None None (Some qg) None 0 False False
        (Some ''c/q.pkl'') False False False False empty_fs)
      = fst (get_data_loader (example_T5 64 example_generate (\<lambda>c. [c])) [''ab''] None None (Some qg) None 0 False False
        None False False False False empty_fs)"
proof -
  have md: "make_data [''ab''] None None = Inr [(''ab'', None, None)]"
    by (simp add: make_data_def)
  have rp: "resolve_prefix (example_T5 64 example_generate (\<lambda>c. [c])) (Some qg) = Inr (Some qg)"
    by (simp add: resolve_prefix_def example_T5_def)
  have fc: "files (cached_fs ''c/q.pkl'' [\<lparr>input_ids = [1], attention_mask = [1], labels = None\<rparr>]) ''c/q.pkl''
       = Some [\<lparr>input_ids = [1], attention_mask = [1], labels = None\<rparr>]"
    by (simp add: cached_fs_def)
  have ne: "\<not> path_exists empty_fs ''c/q.pkl''"
    by (simp add: path_exists_def empty_fs_def)
  have dn: "dirname ''c/q.pkl'' = ''c''" by (simp add: dirname_def)
  have la: "last ''c/q.pkl'' \<noteq> CHR ''/''" by simp
  have ch: "\<not> list_ex (\<lambda>d. files empty_fs d \<noteq> None)
               (path_chain (length (dirname ''c/q.pkl'')) (dirname ''c/q.pkl''))"
    by (simp add: dn dirname_def empty_fs_def)
  have en: "encode_all (encoder_config (example_T5 64 example_generate (\<lambda>c. [c])) (Some qg) False False False
               (length [(''ab'', None :: string option, None :: string option)]))
         [(''ab'', None, None)]
       = Inr [Some (tok_encode_plus char_tok ''generate question: ab'' \<lparr>truncation = True, kw_max_length = Some 64, kw_padding = None\<rparr>)]"
    by (simp add: run_simps)
  note A = cache_load_and_persist[OF md rp,
      where s = "cached_fs ''c/q.pkl'' [\<lparr>input_ids = [1], attention_mask = [1], labels = None\<rparr>]"
        and path = "''c/q.pkl''" and cached = "[\<lparr>input_ids = [1], attention_mask = [1], labels = None\<rparr>]"
        and bs = None and nw = 0 and sh = False and dl = False and d = False and so = False
        and shl = False and par = False]
  note B = cache_load_and_persist[OF md rp,
      where s = empty_fs and path = "''c/q.pkl''"
        and bs = None and nw = 0 and sh = False and dl = False and d = False and so = False
        and shl = False and par = False
        and out = "[Some (tok_encode_plus char_tok ''generate question: ab'' \<lparr>truncation = True, kw_max_length = Some 64, kw_padding = None\<rparr>)]"]
  from A fc have a: "get_data_loader (example_T5 64 example_generate (\<lambda>c. [c])) [''ab''] None None (Some qg) None 0 False False
        (Some ''c/q.pkl'') False False False False (cached_fs ''c/q.pkl'' [\<lparr>input_ids = [1], attention_mask = [1], labels = None\<rparr>])
      = (Inr \<lparr>dataset = [\<lparr>input_ids = [1], attention_mask = [1], labels = None\<rparr>], batch_size = 1, shuffle = False,
          num_workers = 0, drop_last = False\<rparr>,
         cached_fs ''c/q.pkl'' [\<lparr>input_ids = [1], attention_mask = [1], labels = None\<rparr>])"
    by (simp add: DataLoader_init_def)
  from B ne dn la ch en obtain s2 where s2:
    "get_data_loader (example_T5 64 example_generate (\<lambda>c. [c])) [''ab''] None None (Some qg) None 0 False False
        (Some ''c/q.pkl'') False False False False empty_fs
      = (Inr \<lparr>dataset = [tok_encode_plus char_tok ''generate question: ab'' \<lparr>truncation = True, kw_max_length = Some 64, kw_padding = None\<rparr>], batch_size = 1, shuffle = False,
          num_workers = 0, drop_last = False\<rparr>, s2)"
    "files s2 ''c/q.pkl'' = Some [tok_encode_plus char_tok ''generate question: ab'' \<lparr>truncation = True, kw_max_length = Some 64, kw_padding = None\<rparr>]"
    "''c'' \<in> dirs s2"
    "get_data_loader (example_T5 64 example_generate (\<lambda>c. [c])) [''ab''] None None (Some qg) None 0 False False
        None False False False False empty_fs
      = (Inr \<lparr>dataset = [tok_encode_plus char_tok ''generate question: ab'' \<lparr>truncation = True, kw_max_length = Some 64, kw_padding = None\<rparr>], batch_size = 1, shuffle = False,
          num_workers = 0, drop_last = False\<rparr>, empty_fs)"
    by (auto simp: DataLoader_init_def)
  from en have en1: "encode_all (encoder_config (example_T5 64 example_generate (\<lambda>c. [c])) (Some qg) False False False 1)
         [(''ab'', None, None)]
       = Inr [Some (tok_encode_plus char_tok ''generate question: ab'' \<lparr>truncation = True, kw_max_length = Some 64, kw_padding = None\<rparr>)]"
    by simp
  from md rp fc a ne dn en1 s2 show ?thesis by simp
qed

text \<open>
  Claim C8 as stated fails where it takes the batches of an existing cache file to be those
  of a fresh encoding: the file is looked up by its path alone, so a file written for other
  inputs gives other batches.
\<close>

theorem stale_cache_counterexample:
  "get_data_loader (example_T5 64 example_generate (\<lambda>c. [c])) [''ab''] None None (Some qg) None 0 False False
        (Some ''c/q.pkl'') False False False False (cached_fs ''c/q.pkl'' [\<lparr>input_ids = [1], attention_mask = [1], labels = None\<rparr>])
      = (Inr \<lparr>dataset = [\<lparr>input_ids = [1], attention_mask = [1], labels = None\<rparr>], batch_size = 1, shuffle = False,
          num_workers = 0, drop_last = False\<rparr>,
         cached_fs ''c/q.pkl'' [\<lparr>input_ids = [1], attention_mask = [1], labels = None\<rparr>])
   \<and> get_data_loader (example_T5 64 example_generate (\<lambda>c. [c])) [''ab''] None None (Some qg) None 0 False False
        None False False False False (cached_fs ''c/q.pkl'' [\<lparr>input_ids = [1], attention_mask = [1], labels = None\<rparr>])
      = (Inr \<lparr>dataset = [tok_encode_plus char_tok ''generate question: ab'' \<lparr>truncation = True, kw_max_length = Some 64, kw_padding = None\<rparr>], batch_size = 1, shuffle = False,
          num_workers = 0, drop_last = False\<rparr>,
         cached_fs ''c/q.pkl'' [\<lparr>input_ids = [1], attention_mask = [1], labels = None\<rparr>])
   \<and> \<lparr>input_ids = [1], attention_mask = [1], labels = None\<rparr>
      \<noteq> tok_encode_plus char_tok ''generate question: ab'' \<lparr>truncation = True, kw_max_length = Some 64, kw_padding = None\<rparr>"
  by (simp add: run_simps cached_fs_def)



section \<open>Properties of the label-smoothed loss\<close>

lemma clamped_labels: "snd (label_smoothed_loss logits labels' epsilon) = map (max 0) labels'"
  by (simp add: label_smoothed_loss_def Let_def)

lemma masked_nll:
  assumes "length logits = length ls"
    and "\<forall>l\<in>set ls. l = CE_IGNORE_INDEX \<or> 0 \<le> l"
  shows "sum_list (map (\<lambda>(m, x). if m then 0 else x)
           (zip (map (\<lambda>l. l = CE_IGNORE_INDEX) ls)
                (map (\<lambda>(row, l). row ! nat l)
                   (zip (map (\<lambda>row. map uminus (log_softmax row)) logits) (map (max 0) ls)))))
         = (\<Sum>(row, l)\<leftarrow>non_padded logits ls. map uminus (log_softmax row) ! nat l)"
  using assms
  by (induction logits ls rule: list_induct2) (auto simp: non_padded_def max_def)

lemma masked_smoothed:
  assumes "length logits = length ls"
  shows "sum_list (map (\<lambda>(m, x). if m then 0 else x)
           (zip (map (\<lambda>l. l = CE_IGNORE_INDEX) ls)
                (map sum_list (map (\<lambda>row. map uminus (log_softmax row)) logits))))
         = (\<Sum>(row, l)\<leftarrow>non_padded logits ls. sum_list (map uminus (log_softmax row)))"
  using assms
  by (induction logits ls rule: list_induct2) (auto simp: non_padded_def)

lemma num_active:
  assumes "length logits = length ls"
  shows "int (length (map (\<lambda>l. l = CE_IGNORE_INDEX) ls))
           - int (length (filter (\<lambda>m. m) (map (\<lambda>l. l = CE_IGNORE_INDEX) ls)))
         = int (length (non_padded logits ls))"
  using assms
  by (induction logits ls rule: list_induct2) (auto simp: non_padded_def)

lemma active_nth:
  assumes "\<forall>row\<in>set logits. length row = V"
    and "\<forall>l\<in>set ls. l = CE_IGNORE_INDEX \<or> (0 \<le> l \<and> l < int V)"
  shows "(\<Sum>(row, l)\<leftarrow>non_padded logits ls. map uminus (log_softmax row) ! nat l)
         = (\<Sum>(row, l)\<leftarrow>non_padded logits ls. - (log_softmax row ! nat l))"
proof -
  have "map (\<lambda>(row, l). map uminus (log_softmax row) ! nat l) (non_padded logits ls)
        = map (\<lambda>(row, l). - (log_softmax row ! nat l)) (non_padded logits ls)"
  proof (rule map_cong[OF refl])
    fix x assume "x \<in> set (non_padded logits ls)"
    then obtain row l where x: "x = (row, l)" "row \<in> set logits" "l \<in> set ls"
      "l \<noteq> CE_IGNORE_INDEX"
      by (auto simp: non_padded_def dest: set_zip_leftD set_zip_rightD)
    with assms have "nat l < length (log_softmax row)" by (auto simp: log_softmax_def)
    with x show "(case x of (row, l) \<Rightarrow> map uminus (log_softmax row) ! nat l)
                 = (case x of (row, l) \<Rightarrow> - (log_softmax row ! nat l))"
      by simp
  qed
  then show ?thesis by (rule arg_cong)
qed

lemma gather_in_range:
  assumes "\<forall>row\<in>set logits. length row = V" and "0 < V"
    and "\<forall>l\<in>set ls. l = CE_IGNORE_INDEX \<or> (0 \<le> l \<and> l < int V)"
  shows "\<not> list_ex (\<lambda>(row, l). length row \<le> nat l)
            (zip (map (\<lambda>row. map uminus (log_softmax row)) logits) (map (max 0) ls))"
proof -
  have "\<not> length row \<le> nat l"
    if "(row, l) \<in> set (zip (map (\<lambda>row. map uminus (log_softmax row)) logits) (map (max 0) ls))"
    for row l
  proof -
    from that have "row \<in> set (map (\<lambda>row. map uminus (log_softmax row)) logits)"
      and "l \<in> set (map (max 0) ls)"
      by (auto dest: set_zip_leftD set_zip_rightD)
    then obtain r l0 where r: "r \<in> set logits" "row = map uminus (log_softmax r)"
      and l0: "l0 \<in> set ls" "l = max 0 l0" by auto
    from r assms(1) have "length row = V" by (simp add: log_softmax_def)
    moreover from l0 assms(2,3) have "nat l < V"
      by (auto simp: max_def CE_IGNORE_INDEX_def)
    ultimately show ?thesis by simp
  qed
  then show ?thesis by (auto simp: list_ex_iff)
qed

lemma vocab_size_log_probs:
  "vocab_size (map (\<lambda>row. map uminus (log_softmax row)) logits) = vocab_size logits"
  by (cases logits) (simp_all add: vocab_size_def log_softmax_def)

lemma loss_value:
  assumes len: "length logits = length ls"
    and rows: "\<forall>row\<in>set logits. length row = V" and V: "0 < V"
    and lab: "\<forall>l\<in>set ls. l = CE_IGNORE_INDEX \<or> (0 \<le> l \<and> l < int V)"
    and act: "\<exists>l\<in>set ls. l \<noteq> CE_IGNORE_INDEX"
  shows "fst (label_smoothed_loss logits ls epsilon)
           = Inr (Loss ((1 - epsilon) * nll_spec logits ls + epsilon * smoothed_spec logits ls))"
proof -
  from lab have lab0: "\<forall>l\<in>set ls. l = CE_IGNORE_INDEX \<or> 0 \<le> l" by blast
  from act len have "non_padded logits ls \<noteq> []"
  proof (induction logits ls rule: list_induct2')
    case (4 x xs y ys)
    then show ?case by (auto simp: non_padded_def)
  qed simp_all
  then have n0: "int (length (non_padded logits ls)) \<noteq> 0" by simp
  note g = gather_in_range[OF rows V lab]
  have nll: "sum_list (map (\<lambda>(m, x). if m then 0 else x)
           (zip (map (\<lambda>l. l = CE_IGNORE_INDEX) ls)
                (map (\<lambda>(row, l). row ! nat l)
                   (zip (map (\<lambda>row. map uminus (log_softmax row)) logits) (map (max 0) ls)))))
         = (\<Sum>(row, l)\<leftarrow>non_padded logits ls. - (log_softmax row ! nat l))"
    using masked_nll[OF len lab0] active_nth[OF rows lab] by simp
  have sm: "sum_list (map (\<lambda>(m, x). if m then 0 else x)
           (zip (map (\<lambda>l. l = CE_IGNORE_INDEX) ls)
                (map sum_list (map (\<lambda>row. map uminus (log_softmax row)) logits))))
         = (\<Sum>(row, l)\<leftarrow>non_padded logits ls. (\<Sum>x\<leftarrow>log_softmax row. - x))"
    using masked_smoothed[OF len] by (simp add: comp_def)
  show ?thesis
    unfolding label_smoothed_loss_def Let_def
    using g n0
    by (simp only: if_False nll sm num_active[OF len] vocab_size_log_probs fst_conv
          nll_spec_def smoothed_spec_def of_int_of_nat_eq)
qed

text \<open>
  Claim C7, in exact real arithmetic. For logits and labels of agreeing shapes, with every
  label either the ignore value or an index into the vocabulary and at least one position
  not ignored, the loss is \<open>(1 - \<epsilon>) * nll + \<epsilon> * smoothed\<close> with \<open>nll\<close> and \<open>smoothed\<close> as the
  specification defines them, for every \<open>\<epsilon>\<close>; at \<open>\<epsilon> = 0\<close> it is \<open>nll\<close>.
\<close>

theorem label_smoothed_loss_formula:
  assumes "length logits = length labels'"
    and "\<forall>row\<in>set logits. length row = V" and "0 < V"
    and "\<forall>l\<in>set labels'. l = CE_IGNORE_INDEX \<or> (0 \<le> l \<and> l < int V)"
    and "\<exists>l\<in>set labels'. l \<noteq> CE_IGNORE_INDEX"
  shows "fst (label_smoothed_loss logits labels' epsilon)
           = Inr (Loss ((1 - epsilon) * nll_spec logits labels'
                        + epsilon * smoothed_spec logits labels'))
         \<and> fst (label_smoothed_loss logits labels' 0) = Inr (Loss (nll_spec logits labels'))"
  using loss_value[OF assms, of epsilon] loss_value[OF assms, of 0] by simp

theorem label_smoothed_loss_formula_witness:
  "length [[0, 0], [1, 2 :: real]] = length [1, - 100 :: int]
   \<and> list_all (\<lambda>row. length row = 2) [[0, 0], [1, 2 :: real]]
   \<and> list_all (\<lambda>l. l = CE_IGNORE_INDEX \<or> (0 \<le> l \<and> l < int 2)) [1, - 100 :: int]
   \<and> (\<exists>l\<in>set [1, - 100 :: int]. l \<noteq> CE_IGNORE_INDEX)
   \<and> nll_spec [[0, 0], [1, 2]] [1, - 100] = ln 2
   \<and> smoothed_spec [[0, 0], [1, 2]] [1, - 100] = ln 2
   \<and> fst (label_smoothed_loss [[0, 0], [1, 2]] [1, - 100] (1 / 10)) = Inr (Loss (ln 2))
   \<and> fst (label_smoothed_loss [[0, 0], [1, 2]] [1, - 100] 0) = Inr (Loss (ln 2))"
proof -
  have h: "length [[0, 0], [1, 2 :: real]] = length [1, - 100 :: int]"
    "\<forall>row\<in>set [[0, 0], [1, 2 :: real]]. length row = 2" "0 < (2 :: nat)"
    "\<forall>l\<in>set [1, - 100 :: int]. l = CE_IGNORE_INDEX \<or> (0 \<le> l \<and> l < int 2)"
    "\<exists>l\<in>set [1, - 100 :: int]. l \<noteq> CE_IGNORE_INDEX"
    by (simp_all add: CE_IGNORE_INDEX_def)
  have n: "nll_spec [[0, 0], [1, 2]] [1, - 100] = ln 2"
    by (simp add: nll_spec_def non_padded_def CE_IGNORE_INDEX_def log_softmax_def)
  have s: "smoothed_spec [[0, 0], [1, 2]] [1, - 100] = ln 2"
    by (simp add: smoothed_spec_def non_padded_def CE_IGNORE_INDEX_def log_softmax_def
        vocab_size_def)
  have l: "list_all (\<lambda>row. length row = 2) [[0, 0], [1, 2 :: real]]"
    "list_all (\<lambda>l. l = CE_IGNORE_INDEX \<or> (0 \<le> l \<and> l < int 2)) [1, - 100 :: int]"
    by (simp_all add: CE_IGNORE_INDEX_def)
  from label_smoothed_loss_formula[OF h, of "1 / 10"] n s h(1,5) l show ?thesis by simp
qed

text \<open>
  Claim C6 does not hold of the code: \<open>clamp_min_\<close> writes through the view into the
  labels the caller handed over, so a position that held the ignore value holds 0 after
  the call, in \<open>label_smoothed_loss\<close> and in the batch given to \<open>encode_to_loss\<close>.
\<close>

theorem label_smoothed_loss_overwrites_labels:
  "snd (label_smoothed_loss [[0, 0], [1, 2]] [1, - 100] (1 / 10)) = [1, 0]
   \<and> b_labels (snd (encode_to_loss
        ((example_T5 64 example_generate (\<lambda>c. [c]))
           \<lparr>label_smoothing := Some (1 / 10), forward := (\<lambda>b. (0, [[0, 0], [1, 2]]))\<rparr>)
        \<lparr>b_input_ids = [7, 8], b_attention_mask = [1, 1], b_labels = Some [1, - 100]\<rparr>))
      = Some [1, 0]"
proof -
  have c: "snd (label_smoothed_loss [[0, 0], [1, 2]] [1, - 100] (1 / 10)) = [1, 0]"
    by (simp add: clamped_labels)
  obtain r lab where rl: "label_smoothed_loss [[0, 0], [1, 2]] [1, - 100] (1 / 10) = (r, lab)"
    by (cases "label_smoothed_loss [[0, 0], [1, 2]] [1, - 100] (1 / 10)")
  with c have "lab = [1, 0]" by simp
  with rl c show ?thesis
    by (simp add: encode_to_loss_def example_T5_def)
qed


end
